theory Spec2Isabelle
  imports Main "HOL-Library.Multiset"
begin

section \<open>Data model\<close>

text \<open>
  The pipeline works on three kinds of data: the rows of the tweet table
  (\<^verbatim>\<open>pandas.DataFrame\<close>), the message entries of a chat history and the conversation
  dictionaries of the JSON stores. The rows are taken as they stand after lines 49-52 of
  \<^verbatim>\<open>data_pipeline.py\<close>: \<open>tweet_id\<close> and \<open>in_response_to_tweet_id\<close> are stripped strings and
  a missing parent is the empty string. That normalisation works row by row, so it
  commutes with the slice \<^verbatim>\<open>df[:4000]\<close> that the model keeps. The field \<open>inbound\<close> is the
  value of the test \<^verbatim>\<open>tweet['inbound'] == True or str(tweet['inbound']).lower() == 'true'\<close>.
  Line 40 reads only the three tweet id columns as strings. The model takes \<open>author_id\<close> as a
  string all the same, which is what \<^verbatim>\<open>pandas\<close> yields when some author of the table is a
  company name; for a column of numbers alone the code has integers where the model has
  their numerals, in \<open>customer_id\<close> and \<open>company_id\<close> as well.
\<close>

record row =
  tweet_id :: string
  author_id :: string
  inbound :: bool
  created_at :: string
  tweet_text :: string
  in_response_to_tweet_id :: string

datatype response_type = Customer | Company

text \<open>
  A message entry \<^verbatim>\<open>{'response_type': .., 'response': {'tweet_id': .., 'text': ..,
  'created_at': ..}}\<close>; the key \<^verbatim>\<open>'customer_id'\<close> exists only between the moment a customer
  message is built and the end of the run that built it, hence the option.
\<close>

record message =
  msg_response_type :: response_type
  msg_tweet_id :: string
  msg_text :: string
  msg_created_at :: string
  msg_customer_id :: "string option"

text \<open>
  A conversation dictionary. The first seven keys are written by the ingestion stage; the
  others are the tags that the enrichment stage adds, \<open>None\<close> while the key is absent.
  \<open>customer_id\<close> is an option because \<^verbatim>\<open>calculate_customer_patterns\<close> reads it with
  \<^verbatim>\<open>conv.get('customer_id')\<close>. \<open>resolution_status\<close> has two levels: \<open>None\<close> is an absent key
  and \<open>Some None\<close> is the key with the value \<^verbatim>\<open>None\<close> (JSON \<^verbatim>\<open>null\<close>).
\<close>

record conversation =
  primary_tweet_id :: string
  primary_tweet :: string
  tail_id :: string
  customer_id :: "string option"
  company_id :: string
  chat_history :: "message list"
  processed :: bool
  nature_of_support :: "string option"
  sentiment :: "string option"
  resolved :: "bool option"
  resolution_status :: "string option option"
  most_frequent_sentiment :: "string option"
  most_frequent_support_type :: "string option"

datatype py_error = RecursionError | Exception string

text \<open>
  Python dictionaries keep insertion order, and the code iterates over them, so a
  dictionary is an association list. \<open>dict_set\<close> is \<^verbatim>\<open>d[k] = v\<close>: an existing key keeps its
  place and takes the new value, a new key goes to the end.
\<close>

type_synonym 'v dict = "(string \<times> 'v) list"

fun dict_set :: "string \<Rightarrow> 'v \<Rightarrow> 'v dict \<Rightarrow> 'v dict" where
  "dict_set k v [] = [(k, v)]"
| "dict_set k v ((k', v') # d) = (if k' = k then (k, v) # d else (k', v') # dict_set k v d)"

fun dict_get :: "'v dict \<Rightarrow> string \<Rightarrow> 'v option" where
  "dict_get [] k = None"
| "dict_get ((k', v') # d) k = (if k' = k then Some v' else dict_get d k)"

text \<open>\<open>dict_modify k f d\<close> is the in-place mutation of the object stored under \<open>k\<close>.\<close>

fun dict_modify :: "string \<Rightarrow> ('v \<Rightarrow> 'v) \<Rightarrow> 'v dict \<Rightarrow> 'v dict" where
  "dict_modify k f [] = []"
| "dict_modify k f ((k', v') # d) =
     (if k' = k then (k', f v') # d else (k', v') # dict_modify k f d)"

definition dict_values :: "'v dict \<Rightarrow> 'v list" where
  "dict_values d = map snd d"

text \<open>Python truthiness of an optional string: \<^verbatim>\<open>None\<close> and \<^verbatim>\<open>''\<close> are false.\<close>

fun truthy :: "string option \<Rightarrow> bool" where
  "truthy None = False"
| "truthy (Some s) = (s \<noteq> [])"

section \<open>Ingestion: \<^verbatim>\<open>convert_twitter_csv_to_json\<close>\<close>

subsection \<open>Loading the store and cleaning the table\<close>

definition history_ids :: "conversation \<Rightarrow> string list" where
  "history_ids c = map msg_tweet_id (chat_history c)"

definition store_ids :: "conversation list \<Rightarrow> string list" where
  "store_ids cs = concat (map history_ids cs)"

text \<open>Lines 20-29: the dictionary of stored conversations and the set of seen ids.\<close>

definition load_existing_convo :: "conversation list \<Rightarrow> conversation dict" where
  "load_existing_convo existing_data =
     foldl (\<lambda>d conv. dict_set (primary_tweet_id conv) conv d) [] existing_data"

definition load_existing_tweet_ids :: "conversation list \<Rightarrow> string set" where
  "load_existing_tweet_ids existing_data = set (store_ids existing_data)"

text \<open>Line 57: \<^verbatim>\<open>drop_duplicates(subset=['tweet_id'], keep='first')\<close>.\<close>

fun drop_duplicates_from :: "string list \<Rightarrow> row list \<Rightarrow> row list" where
  "drop_duplicates_from seen [] = []"
| "drop_duplicates_from seen (r # rs) =
     (if tweet_id r \<in> set seen then drop_duplicates_from seen rs
      else r # drop_duplicates_from (tweet_id r # seen) rs)"

definition drop_duplicates :: "row list \<Rightarrow> row list" where
  "drop_duplicates rs = drop_duplicates_from [] rs"

text \<open>Lines 41, 57 and 64: the first 4000 rows, without duplicates and empty ids.\<close>

definition clean_df :: "row list \<Rightarrow> row list" where
  "clean_df rows = filter (\<lambda>r. tweet_id r \<noteq> []) (drop_duplicates (take 4000 rows))"

subsection \<open>Root resolution\<close>

text \<open>
  Lines 67-81. The function calls itself once for every parent reference it follows. Python
  bounds the depth of the call stack, so the first argument is the number of frames that
  are left; a walk that needs more (a long chain, or a cycle of parent references) raises
  \<^verbatim>\<open>RecursionError\<close>, which nothing in the caller catches.
\<close>

fun find_conversation_root :: "nat \<Rightarrow> string \<Rightarrow> row list \<Rightarrow> py_error + string option" where
  "find_conversation_root 0 t df_tweets = Inl RecursionError"
| "find_conversation_root (Suc depth) t df_tweets =
     (if t = [] then Inr None
      else case filter (\<lambda>r. tweet_id r = t) df_tweets of
             [] \<Rightarrow> Inr None
           | tweet_row # _ \<Rightarrow>
               if in_response_to_tweet_id tweet_row = [] then Inr (Some t)
               else find_conversation_root depth (in_response_to_tweet_id tweet_row) df_tweets)"

text \<open>
  Lines 97-101 and 133-137: the first stored conversation whose \<open>tail_id\<close> equals the root.
  A root \<^verbatim>\<open>None\<close> equals no \<open>tail_id\<close>.
\<close>

fun find_matching :: "string option \<Rightarrow> conversation dict \<Rightarrow> string option" where
  "find_matching root_id [] = None"
| "find_matching root_id ((conv_id, conversation) # rest) =
     (if Some (tail_id conversation) = root_id then Some conv_id
      else find_matching root_id rest)"

subsection \<open>First loop: the roots of new conversations\<close>

definition new_conversation :: "string \<Rightarrow> row \<Rightarrow> conversation" where
  "new_conversation root_id root_tweet =
     \<lparr> primary_tweet_id = root_id, primary_tweet = tweet_text root_tweet, tail_id = root_id,
       customer_id = Some [], company_id = [], chat_history = [], processed = False,
       nature_of_support = None, sentiment = None, resolved = None,
       resolution_status = None, most_frequent_sentiment = None,
       most_frequent_support_type = None \<rparr>"

text \<open>The body of the loop of lines 86-120 for one tweet whose root is known.\<close>

definition identify_root ::
  "row list \<Rightarrow> conversation dict \<Rightarrow> string option \<Rightarrow> conversation dict \<Rightarrow> conversation dict"
where
  "identify_root df existing_convo root_id new_convo =
     (case root_id of
        None \<Rightarrow> new_convo
      | Some r \<Rightarrow>
          if r = [] then new_convo
          else if truthy (find_matching (Some r) existing_convo) then new_convo
          else if r \<notin> set (map fst new_convo) then
            (case filter (\<lambda>x. tweet_id x = r) df of
               [] \<Rightarrow> new_convo
             | root_tweet # _ \<Rightarrow> dict_set r (new_conversation r root_tweet) new_convo)
          else new_convo)"

fun identify_roots ::
  "nat \<Rightarrow> row list \<Rightarrow> conversation dict \<Rightarrow> string set \<Rightarrow> row list \<Rightarrow> conversation dict
     \<Rightarrow> py_error + conversation dict"
where
  "identify_roots depth df existing_convo existing_tweet_ids [] new_convo = Inr new_convo"
| "identify_roots depth df existing_convo existing_tweet_ids (tweet # rest) new_convo =
     (if tweet_id tweet \<in> existing_tweet_ids
      then identify_roots depth df existing_convo existing_tweet_ids rest new_convo
      else case find_conversation_root depth (tweet_id tweet) df of
             Inl e \<Rightarrow> Inl e
           | Inr root_id \<Rightarrow>
               identify_roots depth df existing_convo existing_tweet_ids rest
                 (identify_root df existing_convo root_id new_convo))"

subsection \<open>Second loop: attaching the messages\<close>

definition message_entry :: "row \<Rightarrow> message" where
  "message_entry tweet =
     \<lparr> msg_response_type = (if inbound tweet then Customer else Company),
       msg_tweet_id = tweet_id tweet, msg_text = tweet_text tweet,
       msg_created_at = created_at tweet,
       msg_customer_id = (if inbound tweet then Some (author_id tweet) else None) \<rparr>"

definition append_message :: "message \<Rightarrow> conversation \<Rightarrow> conversation" where
  "append_message m c = c\<lparr> chat_history := chat_history c @ [m] \<rparr>"

definition reopen :: "message \<Rightarrow> conversation \<Rightarrow> conversation" where
  "reopen m c = (append_message m c)\<lparr> processed := False \<rparr>"

text \<open>
  The state of the loop of lines 123-193: the stored conversations, the set of seen ids
  and the new conversations.
\<close>

type_synonym build_state = "conversation dict \<times> string set \<times> conversation dict"

text \<open>Lines 169-193: the branch \<^verbatim>\<open>elif root_id and root_id in new_convo\<close>.\<close>

definition attach_new :: "row \<Rightarrow> string option \<Rightarrow> build_state \<Rightarrow> build_state" where
  "attach_new tweet root_id st =
     (case st of (existing_convo, existing_tweet_ids, new_convo) \<Rightarrow>
        (case root_id of
           None \<Rightarrow> st
         | Some r \<Rightarrow>
             if r \<noteq> [] then
               (case dict_get new_convo r of
                  None \<Rightarrow> st
                | Some conversation \<Rightarrow>
                    if tweet_id tweet \<notin> set (history_ids conversation)
                    then (existing_convo, existing_tweet_ids,
                          dict_modify r (append_message (message_entry tweet)) new_convo)
                    else st)
             else st))"

text \<open>
  Lines 132-193 for one tweet whose root is known. The test \<^verbatim>\<open>if matching_conversation\<close> is
  a truth test on the key, so a stored conversation whose key is the empty string never
  matches.
\<close>

definition attach :: "row \<Rightarrow> string option \<Rightarrow> build_state \<Rightarrow> build_state" where
  "attach tweet root_id st =
     (case st of (existing_convo, existing_tweet_ids, new_convo) \<Rightarrow>
        (case find_matching root_id existing_convo of
           None \<Rightarrow> attach_new tweet root_id st
         | Some conv_id \<Rightarrow>
             if conv_id \<noteq> [] then
               (case dict_get existing_convo conv_id of
                  None \<Rightarrow> st
                | Some conversation \<Rightarrow>
                    if tweet_id tweet \<notin> set (history_ids conversation)
                    then (dict_modify conv_id (reopen (message_entry tweet)) existing_convo,
                          insert (tweet_id tweet) existing_tweet_ids, new_convo)
                    else st)
             else attach_new tweet root_id st))"

fun build_threads :: "nat \<Rightarrow> row list \<Rightarrow> row list \<Rightarrow> build_state \<Rightarrow> py_error + build_state" where
  "build_threads depth df [] st = Inr st"
| "build_threads depth df (tweet # rest) st =
     (if tweet_id tweet \<in> fst (snd st) then build_threads depth df rest st
      else case find_conversation_root depth (tweet_id tweet) df of
             Inl e \<Rightarrow> Inl e
           | Inr root_id \<Rightarrow> build_threads depth df rest (attach tweet root_id st))"

subsection \<open>Finalisation and the result\<close>

text \<open>
  What the run takes from its surroundings. \<open>recursion_limit\<close> is the number of nested
  calls of \<^verbatim>\<open>find_conversation_root\<close> that the interpreter allows. \<open>strptime\<close> is
  \<^verbatim>\<open>datetime.strptime(s, '%a %b %d %H:%M:%S %z %Y')\<close> as the instant it denotes, \<open>None\<close> when it
  raises. \<open>first_of_set\<close> is \<^verbatim>\<open>list(s)[0]\<close> for the set \<open>s\<close> filled by adding the elements of the
  argument in order: the iteration order of a Python set is not specified, so the choice
  is a parameter.
\<close>

record py_env =
  recursion_limit :: nat
  strptime :: "string \<Rightarrow> int option"
  first_of_set :: "string list \<Rightarrow> string"

text \<open>
  Lines 199-204 and 238-245: \<^verbatim>\<open>list.sort\<close> computes every key before it moves an element, and
  it is stable; when a key raises, the list stays as it was and the bare \<^verbatim>\<open>except\<close> goes on.
\<close>

definition sort_history :: "(string \<Rightarrow> int option) \<Rightarrow> message list \<Rightarrow> message list" where
  "sort_history parse h =
     (if \<forall>m \<in> set h. parse (msg_created_at m) \<noteq> None
      then sort_key (\<lambda>m. the (parse (msg_created_at m))) h
      else h)"

text \<open>Lines 212-225 and 252-265: the ids added to the two sets, in the order they are added.\<close>

fun collect_customer_ids :: "message list \<Rightarrow> string list" where
  "collect_customer_ids [] = []"
| "collect_customer_ids (msg # rest) =
     (case (msg_response_type msg, msg_customer_id msg) of
        (Customer, Some c) \<Rightarrow> c # collect_customer_ids rest
      | _ \<Rightarrow> collect_customer_ids rest)"

fun collect_company_ids :: "row list \<Rightarrow> message list \<Rightarrow> string list" where
  "collect_company_ids df [] = []"
| "collect_company_ids df (msg # rest) =
     (if msg_response_type msg = Company then
        (case filter (\<lambda>r. tweet_id r = msg_tweet_id msg) df of
           [] \<Rightarrow> collect_company_ids df rest
         | tweet_row # _ \<Rightarrow>
             if author_id tweet_row \<noteq> [] then author_id tweet_row # collect_company_ids df rest
             else collect_company_ids df rest)
      else collect_company_ids df rest)"

definition strip_customer_id :: "message \<Rightarrow> message" where
  "strip_customer_id msg = msg\<lparr> msg_customer_id := None \<rparr>"

text \<open>Lines 198-232, for one new conversation.\<close>

definition finalize_new :: "py_env \<Rightarrow> row list \<Rightarrow> conversation \<Rightarrow> conversation" where
  "finalize_new env df conversation =
     (let h = sort_history (strptime env) (chat_history conversation);
          customer_ids = collect_customer_ids h;
          company_ids = collect_company_ids df h
      in conversation
           \<lparr> chat_history := map strip_customer_id h,
             tail_id := (if h \<noteq> [] then msg_tweet_id (last h) else primary_tweet_id conversation),
             customer_id := Some (if customer_ids \<noteq> [] then first_of_set env customer_ids else []),
             company_id := (if company_ids \<noteq> [] then first_of_set env company_ids else []) \<rparr>)"

text \<open>Lines 236-276, for one stored conversation.\<close>

definition finalize_existing :: "py_env \<Rightarrow> row list \<Rightarrow> conversation \<Rightarrow> conversation" where
  "finalize_existing env df conversation =
     (let h = sort_history (strptime env) (chat_history conversation);
          customer_ids = collect_customer_ids h;
          company_ids = collect_company_ids df h
      in conversation
           \<lparr> chat_history := map strip_customer_id h,
             tail_id := (if h \<noteq> [] then msg_tweet_id (last h) else tail_id conversation),
             customer_id := (if customer_ids \<noteq> [] then Some (first_of_set env customer_ids)
                             else customer_id conversation),
             company_id := (if company_ids \<noteq> [] then first_of_set env company_ids
                            else company_id conversation) \<rparr>)"

text \<open>Lines 47-279: the run after the table has been read.\<close>

definition ingest :: "py_env \<Rightarrow> row list \<Rightarrow> conversation list \<Rightarrow> py_error + conversation list" where
  "ingest env rows existing_data =
     (let existing_convo = load_existing_convo existing_data;
          existing_tweet_ids = load_existing_tweet_ids existing_data;
          df = clean_df rows
      in case identify_roots (recursion_limit env) df existing_convo existing_tweet_ids df [] of
           Inl e \<Rightarrow> Inl e
         | Inr new_convo \<Rightarrow>
             (case build_threads (recursion_limit env) df df
                     (existing_convo, existing_tweet_ids, new_convo) of
                Inl e \<Rightarrow> Inl e
              | Inr (existing_convo', seen', new_convo') \<Rightarrow>
                  Inr (map (finalize_existing env df) (dict_values existing_convo') @
                       map (finalize_new env df) (dict_values new_convo'))))"

text \<open>
  The whole function, called with an output path as \<^verbatim>\<open>main.py\<close> does. The table is \<open>None\<close> when
  \<^verbatim>\<open>pd.read_csv\<close> raises; \<open>existing_data\<close> is the content of the JSON file, \<open>[]\<close> when there is
  none. The result is the returned list and the content of the file afterwards: a run that
  cannot read the table returns \<^verbatim>\<open>[]\<close> and writes nothing. The write of lines 291-297 is
  taken to succeed. The code catches an error of the write and returns the list all the
  same; the file is then what the failed write left, and when it cannot be read the next
  run starts from the empty store (lines 35-36), which is the call with \<open>existing_data = []\<close>.
\<close>

definition convert_twitter_csv_to_json ::
  "py_env \<Rightarrow> row list option \<Rightarrow> conversation list
     \<Rightarrow> py_error + conversation list \<times> conversation list"
where
  "convert_twitter_csv_to_json env csv existing_data =
     (case csv of
        None \<Rightarrow> Inr ([], existing_data)
      | Some rows \<Rightarrow>
          (case ingest env rows existing_data of
             Inl e \<Rightarrow> Inl e
           | Inr result \<Rightarrow> Inr (result, result)))"

section \<open>Enrichment: \<^verbatim>\<open>tagging.py\<close>\<close>

subsection \<open>The classification collaborator\<close>

text \<open>
  The three functions build a prompt around a text made from the conversation and send it
  to the model inside \<^verbatim>\<open>try\<close>. The collaborator is a parameter: \<open>api_key\<close> says whether
  \<^verbatim>\<open>GOOGLE_API_KEY\<close> is set, and each call maps the conversation text to the outcome of the
  \<^verbatim>\<open>try\<close> body, \<open>Inl\<close> when the constructor, \<^verbatim>\<open>invoke\<close> or the reading of the answer raises and
  \<open>Inr\<close> the answer as the body returns it (trimmed, and for the category without its
  leading number).
\<close>

record collaborator =
  api_key :: bool
  classify_call :: "string \<Rightarrow> py_error + string"
  sentiment_call :: "string \<Rightarrow> py_error + string"
  resolution_call :: "string \<Rightarrow> py_error + string"

text \<open>\<^verbatim>\<open>"\n".join(lines)\<close>.\<close>

fun join_lines :: "string list \<Rightarrow> string" where
  "join_lines [] = []"
| "join_lines [l] = l"
| "join_lines (l # ls) = l @ ''\<newline>'' @ join_lines ls"

text \<open>Lines 25-28 and 146-149: the primary tweet and the texts of the customer messages.\<close>

definition customer_context :: "string \<Rightarrow> message list \<Rightarrow> string" where
  "customer_context primary chat =
     join_lines (primary # map msg_text (filter (\<lambda>msg. msg_response_type msg = Customer) chat))"

text \<open>Lines 198-204: every message with its speaker.\<close>

definition speaker_line :: "message \<Rightarrow> string" where
  "speaker_line msg =
     (if msg_response_type msg = Customer then ''Customer'' else ''Company'') @ '': '' @ msg_text msg"

definition resolution_context :: "message list \<Rightarrow> string" where
  "resolution_context chat = join_lines (map speaker_line chat)"

definition default_category :: string where
  "default_category = ''Technical Issue (Simple / Minor)''"

definition default_sentiment :: string where
  "default_sentiment = ''Neutral''"

definition classify_support_nature_llm :: "collaborator \<Rightarrow> string \<Rightarrow> message list \<Rightarrow> string" where
  "classify_support_nature_llm llm primary chat =
     (if \<not> api_key llm then default_category
      else case classify_call llm (customer_context primary chat) of
             Inl e \<Rightarrow> default_category
           | Inr cleaned_classification \<Rightarrow> cleaned_classification)"

definition analyze_sentiment_llm :: "collaborator \<Rightarrow> string \<Rightarrow> message list \<Rightarrow> string" where
  "analyze_sentiment_llm llm primary chat =
     (if \<not> api_key llm then default_sentiment
      else case sentiment_call llm (customer_context primary chat) of
             Inl e \<Rightarrow> default_sentiment
           | Inr s \<Rightarrow> s)"

text \<open>
  Lines 183-248. The branch for a missing key prints a warning and goes on to the call; the
  \<^verbatim>\<open>except\<close> branch prints and falls off the end of the function, which returns \<^verbatim>\<open>None\<close>.
\<close>

definition determine_resolution_status_llm :: "collaborator \<Rightarrow> message list \<Rightarrow> string option" where
  "determine_resolution_status_llm llm chat =
     (if chat = [] then Some ''waiting_for_company''
      else case resolution_call llm (resolution_context chat) of
             Inl e \<Rightarrow> None
           | Inr status \<Rightarrow> Some status)"

subsection \<open>Customer patterns\<close>

text \<open>
  \<^verbatim>\<open>Counter(xs)\<close> counts in a dictionary, so the keys stand in the order of their first
  occurrence. \<^verbatim>\<open>most_common(1)\<close> is \<^verbatim>\<open>max\<close> over the items by count, and \<^verbatim>\<open>max\<close> keeps the
  first of the largest items: it replaces its candidate only by a strictly larger one.
\<close>

fun counter_add :: "string \<Rightarrow> nat dict \<Rightarrow> nat dict" where
  "counter_add x [] = [(x, 1)]"
| "counter_add x ((k, n) # d) = (if k = x then (k, Suc n) # d else (k, n) # counter_add x d)"

definition counter :: "string list \<Rightarrow> nat dict" where
  "counter xs = foldl (\<lambda>d x. counter_add x d) [] xs"

fun max_by_count :: "string \<times> nat \<Rightarrow> nat dict \<Rightarrow> string \<times> nat" where
  "max_by_count best [] = best"
| "max_by_count best (item # items) =
     (if snd best < snd item then max_by_count item items else max_by_count best items)"

definition most_common_or :: "string \<Rightarrow> string list \<Rightarrow> string" where
  "most_common_or dflt xs =
     (case counter xs of [] \<Rightarrow> dflt | item # items \<Rightarrow> fst (max_by_count item items))"

text \<open>Lines 262-268: the conversations of every customer, in the order of first appearance.\<close>

fun dict_append :: "string \<Rightarrow> 'v \<Rightarrow> 'v list dict \<Rightarrow> 'v list dict" where
  "dict_append k v [] = [(k, [v])]"
| "dict_append k v ((k', vs) # d) =
     (if k' = k then (k', vs @ [v]) # d else (k', vs) # dict_append k v d)"

definition group_by_customer :: "conversation list \<Rightarrow> conversation list dict" where
  "group_by_customer conversations =
     foldl (\<lambda>d conv. case customer_id conv of
                        None \<Rightarrow> d
                      | Some cid \<Rightarrow> if cid \<noteq> [] then dict_append cid conv d else d)
       [] conversations"

definition sentiment_or_default :: "conversation \<Rightarrow> string" where
  "sentiment_or_default conv = (case sentiment conv of None \<Rightarrow> default_sentiment | Some s \<Rightarrow> s)"

definition support_or_default :: "conversation \<Rightarrow> string" where
  "support_or_default conv =
     (case nature_of_support conv of None \<Rightarrow> default_category | Some s \<Rightarrow> s)"

text \<open>
  Lines 251-290. A pattern is the pair of \<^verbatim>\<open>most_frequent_sentiment\<close> and
  \<^verbatim>\<open>most_frequent_support_type\<close>.
\<close>

definition calculate_customer_patterns :: "conversation list \<Rightarrow> (string \<times> string) dict" where
  "calculate_customer_patterns conversations =
     map (\<lambda>(cid, convs).
            (cid, (most_common_or default_sentiment (map sentiment_or_default convs),
                   most_common_or default_category (map support_or_default convs))))
         (group_by_customer conversations)"

subsection \<open>\<^verbatim>\<open>tag_conversations\<close>\<close>

text \<open>Lines 313-328, for one conversation.\<close>

definition tag_conversation :: "collaborator \<Rightarrow> conversation \<Rightarrow> conversation" where
  "tag_conversation llm conversation =
     (let support = classify_support_nature_llm llm (primary_tweet conversation)
                      (chat_history conversation);
          senti = analyze_sentiment_llm llm (primary_tweet conversation)
                    (chat_history conversation);
          status = determine_resolution_status_llm llm (chat_history conversation)
      in conversation
           \<lparr> nature_of_support := Some support, sentiment := Some senti,
             resolved := Some (status = Some ''resolved''),
             resolution_status := Some status \<rparr>)"

text \<open>Lines 335-343, for one conversation.\<close>

definition add_patterns :: "(string \<times> string) dict \<Rightarrow> conversation \<Rightarrow> conversation" where
  "add_patterns customer_patterns conversation =
     (case (case customer_id conversation of
              None \<Rightarrow> None
            | Some cid \<Rightarrow> if cid \<noteq> [] then dict_get customer_patterns cid else None) of
        Some patterns \<Rightarrow>
          conversation\<lparr> most_frequent_sentiment := Some (fst patterns),
                         most_frequent_support_type := Some (snd patterns) \<rparr>
      | None \<Rightarrow>
          conversation\<lparr> most_frequent_sentiment := Some (sentiment_or_default conversation),
                         most_frequent_support_type := Some (support_or_default conversation) \<rparr>)"

text \<open>Lines 369-374: the tagged conversations are written over the stored ones, key by key.\<close>

definition upsert_all :: "conversation list \<Rightarrow> conversation list \<Rightarrow> conversation list" where
  "upsert_all existing unprocessed =
     dict_values
       (foldl (\<lambda>d c. dict_set (primary_tweet_id c) c d)
          (foldl (\<lambda>d c. dict_set (primary_tweet_id c) c d) [] existing)
          unprocessed)"

text \<open>Lines 387-390: the raw store with the tagged conversations marked.\<close>

definition mark_processed :: "string set \<Rightarrow> conversation list \<Rightarrow> conversation list" where
  "mark_processed tagged_ids all_conversations =
     map (\<lambda>conv. if primary_tweet_id conv \<in> tagged_ids then conv\<lparr> processed := True \<rparr> else conv)
       all_conversations"

text \<open>
  The function with both paths given, as \<^verbatim>\<open>main.py\<close> calls it. The arguments are the contents
  of the raw store and of the tagged store (\<open>[]\<close> when the file does not exist); the result
  is the returned list, the raw store and the tagged store afterwards.
\<close>

definition tag_conversations ::
  "collaborator \<Rightarrow> conversation list \<Rightarrow> conversation list
     \<Rightarrow> conversation list \<times> conversation list \<times> conversation list"
where
  "tag_conversations llm raw tagged =
     (let unprocessed = filter (\<lambda>c. \<not> processed c) raw
      in if unprocessed = [] then ([], raw, tagged)
         else
           let unprocessed1 = map (tag_conversation llm) unprocessed;
               customer_patterns = calculate_customer_patterns unprocessed1;
               unprocessed2 = map (add_patterns customer_patterns) unprocessed1;
               unprocessed3 = map (\<lambda>c. c\<lparr> processed := False \<rparr>) unprocessed2;
               tagged_ids = set (map primary_tweet_id unprocessed3)
           in (unprocessed3, mark_processed tagged_ids raw, upsert_all tagged unprocessed3))"

section \<open>Recommendation: \<^verbatim>\<open>nba.py\<close>\<close>

record features =
  f_customer_id :: string
  f_primary_tweet :: string
  f_nature_of_support :: string
  f_sentiment :: string
  f_most_frequent_sentiment :: string
  f_most_frequent_support_type :: string
  f_conversation_length :: nat
  f_chat_history :: "message list"
  f_resolved :: bool
  f_resolution_status :: "string option"
  f_customer_has_reply :: bool

record recommendation =
  rec_customer_id :: string
  channel :: string
  send_time :: string
  rec_message :: string
  reasoning :: string
  issue_status :: string

definition or_empty :: "string option \<Rightarrow> string" where
  "or_empty v = (case v of None \<Rightarrow> [] | Some s \<Rightarrow> s)"

text \<open>
  Lines 24-65. \<^verbatim>\<open>conversation.get(key, default)\<close> gives the default only for an absent key: a
  \<open>resolution_status\<close> stored as \<^verbatim>\<open>None\<close> stays \<^verbatim>\<open>None\<close>. No stage writes the key
  \<^verbatim>\<open>'customer_sentiment'\<close>, so that feature is its default.
\<close>

definition extract_features :: "conversation \<Rightarrow> features" where
  "extract_features conversation =
     \<lparr> f_customer_id = or_empty (customer_id conversation),
       f_primary_tweet = primary_tweet conversation,
       f_nature_of_support = or_empty (nature_of_support conversation),
       f_sentiment = [],
       f_most_frequent_sentiment = or_empty (most_frequent_sentiment conversation),
       f_most_frequent_support_type = or_empty (most_frequent_support_type conversation),
       f_conversation_length = length (chat_history conversation),
       f_chat_history = chat_history conversation,
       f_resolved = (case resolved conversation of None \<Rightarrow> False | Some b \<Rightarrow> b),
       f_resolution_status =
         (case resolution_status conversation of
            None \<Rightarrow> Some ''waiting_for_company'' | Some v \<Rightarrow> v),
       f_customer_has_reply =
         (filter (\<lambda>msg. msg_response_type msg = Company) (chat_history conversation) \<noteq> []) \<rparr>"

text \<open>
  Lines 67-85. The function returns the default record in its first statement; the prompt
  and the call below that \<^verbatim>\<open>return\<close> are never reached. The first argument is
  \<^verbatim>\<open>datetime.now(timezone.utc)\<close> as the function formats it.
\<close>

definition determine_next_best_action_llm :: "string \<Rightarrow> features \<Rightarrow> recommendation" where
  "determine_next_best_action_llm now fs =
     \<lparr> rec_customer_id = f_customer_id fs,
       channel = ''twitter_dm_reply'',
       send_time = now,
       rec_message = ''Thank you for reaching out. We\039re here to help resolve your issue.'',
       reasoning = ''Default recommendation - LLM not available'',
       issue_status = ''pending_customer_reply'' \<rparr>"

text \<open>The loop of lines 215-218; \<open>clock i\<close> is the time at the call number \<open>i\<close>.\<close>

fun recommend_all :: "(nat \<Rightarrow> string) \<Rightarrow> nat \<Rightarrow> features list \<Rightarrow> recommendation list" where
  "recommend_all clock i [] = []"
| "recommend_all clock i (fs # rest) =
     determine_next_best_action_llm (clock i) fs # recommend_all clock (Suc i) rest"

text \<open>
  Lines 186-233: the recommendations and the tagged store afterwards, where every
  conversation that was loaded as unprocessed is marked.
\<close>

definition process_conversations ::
  "(nat \<Rightarrow> string) \<Rightarrow> conversation list \<Rightarrow> recommendation list \<times> conversation list"
where
  "process_conversations clock stored =
     (let conversations = filter (\<lambda>c. \<not> processed c) stored;
          all_features = map extract_features conversations;
          customers_waiting_for_replies =
            filter (\<lambda>fs. f_resolution_status fs = Some ''waiting_for_company'') all_features;
          processed_ids = set (map primary_tweet_id conversations);
          recommendations = recommend_all clock 0 customers_waiting_for_replies
      in (recommendations,
          map (\<lambda>conv. if \<not> processed conv \<and> primary_tweet_id conv \<in> processed_ids
                       then conv\<lparr> processed := True \<rparr> else conv) stored))"

section \<open>Sample inputs\<close>

text \<open>
  Concrete inputs on which the theorems below are exercised. The timestamps are in the
  format of the data set; \<open>sample_strptime\<close> has the instants (seconds since 1970) that
  \<^verbatim>\<open>datetime.strptime\<close> gives for them, and no other timestamp occurs in the samples.
\<close>

definition ts_2210 :: string where
  "ts_2210 = ''Tue Oct 31 22:10:47 +0000 2017''"

definition ts_2211 :: string where
  "ts_2211 = ''Tue Oct 31 22:11:45 +0000 2017''"

definition ts_2213 :: string where
  "ts_2213 = ''Tue Oct 31 22:13:02 +0000 2017''"

definition sample_strptime :: "string \<Rightarrow> int option" where
  "sample_strptime s =
     (if s = ts_2210 then Some 1509487847
      else if s = ts_2211 then Some 1509487905
      else if s = ts_2213 then Some 1509487982
      else None)"

definition sample_env :: py_env where
  "sample_env = \<lparr> recursion_limit = 900, strptime = sample_strptime, first_of_set = hd \<rparr>"

text \<open>A collaborator that is configured and raises on every call.\<close>

definition failing_collaborator :: collaborator where
  "failing_collaborator =
     \<lparr> api_key = True,
       classify_call = (\<lambda>ctx. Inl (Exception ''503 unavailable'')),
       sentiment_call = (\<lambda>ctx. Inl (Exception ''503 unavailable'')),
       resolution_call = (\<lambda>ctx. Inl (Exception ''503 unavailable'')) \<rparr>"

definition asked :: message where
  "asked = \<lparr> msg_response_type = Customer, msg_tweet_id = ''1'', msg_text = ''my app crashes'',
             msg_created_at = ts_2210, msg_customer_id = None \<rparr>"

text \<open>A one-message conversation as the ingestion stage stores it.\<close>

definition fresh_conversation :: conversation where
  "fresh_conversation =
     \<lparr> primary_tweet_id = ''1'', primary_tweet = ''my app crashes'', tail_id = ''1'',
       customer_id = Some ''115712'', company_id = [], chat_history = [asked],
       processed = False, nature_of_support = None, sentiment = None, resolved = None,
       resolution_status = None, most_frequent_sentiment = None,
       most_frequent_support_type = None \<rparr>"

text \<open>The same conversation tagged as waiting for the company.\<close>

definition waiting_conversation :: conversation where
  "waiting_conversation =
     fresh_conversation
       \<lparr> nature_of_support := Some ''Technical Issue (Simple / Minor)'',
         sentiment := Some ''Negative'', resolved := Some False,
         resolution_status := Some (Some ''waiting_for_company''),
         most_frequent_sentiment := Some ''Negative'',
         most_frequent_support_type := Some ''Technical Issue (Simple / Minor)'' \<rparr>"

text \<open>
  Three tagged conversations of one customer with the sentiments Negative, Negative and
  Positive and no category tag, and one conversation without a customer.
\<close>

definition tagged_with :: "string \<Rightarrow> string option \<Rightarrow> string \<Rightarrow> conversation" where
  "tagged_with root cust senti =
     fresh_conversation
       \<lparr> primary_tweet_id := root, tail_id := root, customer_id := cust,
         sentiment := Some senti \<rparr>"

definition three_tagged :: "conversation list" where
  "three_tagged =
     [tagged_with ''1'' (Some ''115712'') ''Negative'',
      tagged_with ''8'' (Some []) ''Positive'',
      tagged_with ''11'' (Some ''115712'') ''Negative'',
      tagged_with ''15'' (Some ''115712'') ''Positive'']"

text \<open>
  A thread of three tweets: a customer asks, the company answers, the customer follows up.
\<close>

definition root_tweet :: row where
  "root_tweet =
     \<lparr> tweet_id = ''1'', author_id = ''115712'', inbound = True, created_at = ts_2210,
       tweet_text = ''my app crashes'', in_response_to_tweet_id = [] \<rparr>"

definition reply_tweet :: row where
  "reply_tweet =
     \<lparr> tweet_id = ''2'', author_id = ''sprintcare'', inbound = False, created_at = ts_2211,
       tweet_text = ''please send us a DM'', in_response_to_tweet_id = ''1'' \<rparr>"

definition followup_tweet :: row where
  "followup_tweet =
     \<lparr> tweet_id = ''3'', author_id = ''115712'', inbound = True, created_at = ts_2213,
       tweet_text = ''done'', in_response_to_tweet_id = ''2'' \<rparr>"

text \<open>
  The store that a run on the first two tweets writes, once the later stages have marked
  the conversation as processed.
\<close>

definition answered :: message where
  "answered = \<lparr> msg_response_type = Company, msg_tweet_id = ''2'',
                msg_text = ''please send us a DM'', msg_created_at = ts_2211,
                msg_customer_id = None \<rparr>"

definition settled_thread :: conversation where
  "settled_thread =
     fresh_conversation
       \<lparr> tail_id := ''2'', company_id := ''sprintcare'', chat_history := [asked, answered],
         processed := True \<rparr>"

definition thread_table :: "row list" where
  "thread_table = [root_tweet, reply_tweet, followup_tweet]"

text \<open>
  The second record that the run on \<open>thread_table\<close> against this store writes under the root
  of the settled thread.
\<close>

definition followed_up :: message where
  "followed_up = \<lparr> msg_response_type = Customer, msg_tweet_id = ''3'', msg_text = ''done'',
                   msg_created_at = ts_2213, msg_customer_id = None \<rparr>"

definition orphan_followup :: conversation where
  "orphan_followup = fresh_conversation \<lparr> tail_id := ''3'', chat_history := [followed_up] \<rparr>"

text \<open>
  A settled conversation of one message, and the store after a run on the first two tweets
  against it.
\<close>

definition settled_single :: conversation where
  "settled_single = fresh_conversation \<lparr> processed := True \<rparr>"

definition reopened_thread :: conversation where
  "reopened_thread = settled_thread \<lparr> processed := False \<rparr>"

text \<open>
  The same with a first message dated 22:13:02: the answer in the table, dated 22:11:45, is
  then earlier than the message it answers.
\<close>

definition asked_late :: message where
  "asked_late = asked \<lparr> msg_created_at := ts_2213 \<rparr>"

definition late_root_tweet :: row where
  "late_root_tweet = root_tweet \<lparr> created_at := ts_2213 \<rparr>"

definition settled_late_single :: conversation where
  "settled_late_single = fresh_conversation \<lparr> chat_history := [asked_late], processed := True \<rparr>"

definition reopened_out_of_order :: conversation where
  "reopened_out_of_order =
     fresh_conversation \<lparr> company_id := ''sprintcare'', chat_history := [answered, asked_late] \<rparr>"

text \<open>
  A table of 4001 rows: 4000 copies of the first tweet and, in the last row, a tweet that
  starts a thread of its own.
\<close>

definition late_tweet :: row where
  "late_tweet =
     \<lparr> tweet_id = ''9'', author_id = ''115713'', inbound = True, created_at = ts_2213,
       tweet_text = ''no signal'', in_response_to_tweet_id = [] \<rparr>"

definition long_table :: "row list" where
  "long_table = replicate 4000 root_tweet @ [late_tweet]"

section \<open>Auxiliary definitions\<close>

text \<open>
  The most frequent value of a list as the specification words it: among the values that
  occur at least as often as every other value, the one met first in the order of the list;
  the default when the list is empty.
\<close>

definition most_frequent_first :: "string \<Rightarrow> string list \<Rightarrow> string" where
  "most_frequent_first dflt xs =
     (case filter (\<lambda>x. \<forall>y \<in> set xs. count_list xs y \<le> count_list xs x) xs of
        [] \<Rightarrow> dflt
      | x # _ \<Rightarrow> x)"

text \<open>The body of the grouping loop of \<^verbatim>\<open>calculate_customer_patterns\<close>, named for the proofs.\<close>

definition group_step :: "conversation list dict \<Rightarrow> conversation \<Rightarrow> conversation list dict" where
  "group_step d conv =
     (case customer_id conv of
        None \<Rightarrow> d
      | Some cid \<Rightarrow> if cid \<noteq> [] then dict_append cid conv d else d)"

text \<open>
  What the first loop of the ingestion builds: every entry stands under its own root id, has
  an empty history, and its root is the id of a row of the table without a parent
  reference.
\<close>

definition roots_only :: "row list \<Rightarrow> conversation dict \<Rightarrow> bool" where
  "roots_only df new_convo =
     (\<forall>(k, v) \<in> set new_convo.
        primary_tweet_id v = k \<and> chat_history v = [] \<and>
        (\<exists>row rest. filter (\<lambda>x. tweet_id x = k) df = row # rest \<and>
                     in_response_to_tweet_id row = []))"

text \<open>A multiset of ids without repetition.\<close>

definition once :: "string multiset \<Rightarrow> bool" where
  "once M = (\<forall>a. count M a \<le> 1)"

text \<open>The ids of all the messages of a dictionary of conversations.\<close>

definition dict_ids :: "conversation dict \<Rightarrow> string list" where
  "dict_ids d = store_ids (dict_values d)"

text \<open>
  A sequence of runs on one raw store. Between two ingestions the enrichment stage marks
  the conversations it has tagged (\<open>mark_processed\<close>, the only thing \<^verbatim>\<open>tag_conversations\<close>
  writes to the raw store); the set of the marked ids is part of each run.
\<close>

fun ingest_runs ::
  "(py_env \<times> row list option \<times> string set) list \<Rightarrow> conversation list
     \<Rightarrow> py_error + conversation list"
where
  "ingest_runs [] store = Inr store"
| "ingest_runs ((env, csv, tagged_ids) # rest) store =
     (case convert_twitter_csv_to_json env csv store of
        Inl e \<Rightarrow> Inl e
      | Inr (ret, store') \<Rightarrow> ingest_runs rest (mark_processed tagged_ids store'))"

section \<open>Properties of the ingestion stage\<close>

subsection \<open>The cleaned table\<close>

lemma drop_duplicates_from_subset: "set (drop_duplicates_from seen rs) \<subseteq> set rs"
  by (induction rs arbitrary: seen) auto

lemma drop_duplicates_from_distinct:
  "distinct (map tweet_id (drop_duplicates_from seen rs)) \<and>
   tweet_id ` set (drop_duplicates_from seen rs) \<inter> set seen = {}"
proof (induction rs arbitrary: seen)
  case Nil
  show ?case by simp
next
  case (Cons r rs)
  show ?case
  proof (cases "tweet_id r \<in> set seen")
    case True
    with Cons.IH[of seen] show ?thesis by simp
  next
    case False
    with Cons.IH[of "tweet_id r # seen"] show ?thesis by auto
  qed
qed

lemma clean_df_distinct: "distinct (map tweet_id (clean_df rows))"
  unfolding clean_df_def drop_duplicates_def
  using drop_duplicates_from_distinct[of "[]" "take 4000 rows"]
  by (simp add: distinct_map_filter)

lemma clean_df_subset: "set (clean_df rows) \<subseteq> set (take 4000 rows)"
  unfolding clean_df_def drop_duplicates_def
  using drop_duplicates_from_subset[of "[]" "take 4000 rows"] by auto

lemma clean_df_take: "clean_df (take 4000 rows) = clean_df rows"
  by (simp add: clean_df_def)

lemma filter_unique_row:
  "distinct (map tweet_id df) \<Longrightarrow> m \<in> set df \<Longrightarrow>
     filter (\<lambda>x. tweet_id x = tweet_id m) df = [m]"
  by (induction df) (auto simp: filter_empty_conv image_iff)

subsection \<open>Root resolution\<close>

text \<open>A root that the walk returns is the id of a row without a parent reference.\<close>

lemma find_conversation_root_Some:
  "find_conversation_root depth t df = Inr (Some r) \<Longrightarrow>
     r \<noteq> [] \<and> (\<exists>row rest. filter (\<lambda>x. tweet_id x = r) df = row # rest \<and>
                              in_response_to_tweet_id row = [])"
proof (induction depth arbitrary: t)
  case 0
  then show ?case by simp
next
  case (Suc depth)
  show ?case
  proof (cases "filter (\<lambda>x. tweet_id x = t) df")
    case Nil
    with Suc.prems show ?thesis by (simp split: if_splits)
  next
    case (Cons row rest)
    show ?thesis
    proof (cases "in_response_to_tweet_id row = []")
      case True
      with Suc.prems Cons show ?thesis by (auto split: if_splits)
    next
      case False
      with Suc.prems Cons
      have "find_conversation_root depth (in_response_to_tweet_id row) df = Inr (Some r)"
        by (simp split: if_splits)
      then show ?thesis by (rule Suc.IH)
    qed
  qed
qed

text \<open>A row whose parent is not in the table has no root, whatever the depth allowed.\<close>

lemma find_conversation_root_missing_parent:
  assumes "distinct (map tweet_id df)" "m \<in> set df" "tweet_id m \<noteq> []"
    and "in_response_to_tweet_id m \<noteq> []"
    and "in_response_to_tweet_id m \<notin> tweet_id ` set df"
  shows "find_conversation_root (Suc (Suc n)) (tweet_id m) df = Inr None"
    and "find_conversation_root depth (tweet_id m) df \<noteq> Inr (Some r)"
proof -
  have row: "filter (\<lambda>x. tweet_id x = tweet_id m) df = [m]"
    using assms(1,2) by (rule filter_unique_row)
  have none: "filter (\<lambda>x. tweet_id x = in_response_to_tweet_id m) df = []"
    using assms(5) by (force simp: filter_empty_conv)
  show "find_conversation_root (Suc (Suc n)) (tweet_id m) df = Inr None"
    using assms(3,4) row none by simp
  show "find_conversation_root depth (tweet_id m) df \<noteq> Inr (Some r)"
  proof
    assume "find_conversation_root depth (tweet_id m) df = Inr (Some r)"
    then obtain d where d: "depth = Suc d"
      and "find_conversation_root d (in_response_to_tweet_id m) df = Inr (Some r)"
      using assms(3,4) row by (cases depth) auto
    then show False using none by (cases d) (auto split: if_splits)
  qed
qed

subsection \<open>Dictionaries\<close>

lemma dict_set_keys:
  "map fst (dict_set k v d) = (if k \<in> fst ` set d then map fst d else map fst d @ [k])"
  by (induction d) (force split: if_splits)+

lemma dict_set_distinct: "distinct (map fst d) \<Longrightarrow> distinct (map fst (dict_set k v d))"
  by (simp add: dict_set_keys)

lemma dict_set_fresh: "k \<notin> fst ` set d \<Longrightarrow> dict_set k v d = d @ [(k, v)]"
  by (induction d) auto

lemma dict_get_Some_mem: "dict_get d k = Some v \<Longrightarrow> (k, v) \<in> set d"
  by (induction d) (auto split: if_splits)

lemma dict_get_None: "dict_get d k = None \<longleftrightarrow> k \<notin> fst ` set d"
  by (induction d) (force split: if_splits)+

lemma dict_get_distinct: "distinct (map fst d) \<Longrightarrow> (k, v) \<in> set d \<Longrightarrow> dict_get d k = Some v"
  by (induction d) (force split: if_splits)+

lemma find_matching_Some:
  "find_matching root_id d = Some k \<Longrightarrow> \<exists>c. (k, c) \<in> set d \<and> Some (tail_id c) = root_id"
  by (induction d) (auto split: if_splits)

lemma find_matching_None [simp]: "find_matching None d = None"
  by (induction d) auto

subsection \<open>Message ids\<close>

lemma store_ids_simps [simp]:
  "store_ids [] = []"
  "store_ids (c # cs) = history_ids c @ store_ids cs"
  "store_ids (cs @ ds) = store_ids cs @ store_ids ds"
  by (simp_all add: store_ids_def)

lemma dict_ids_simps [simp]:
  "dict_ids [] = []"
  "dict_ids ((k, c) # d) = history_ids c @ dict_ids d"
  "dict_ids (d @ d') = dict_ids d @ dict_ids d'"
  by (simp_all add: dict_ids_def dict_values_def)

lemma once_distinct: "distinct xs \<longleftrightarrow> once (mset xs)"
proof
  assume "distinct xs"
  then show "once (mset xs)" by (simp add: once_def distinct_count_atmost_1)
next
  assume o: "once (mset xs)"
  show "distinct xs"
    unfolding distinct_count_atmost_1
  proof (intro allI)
    fix a
    have "count (mset xs) a \<le> 1" using o by (simp add: once_def)
    then have le: "count (mset xs) a \<le> 1" .
    show "count (mset xs) a = (if a \<in> set xs then 1 else 0)"
    proof (cases "a \<in> set xs")
      case True
      then have "count (mset xs) a \<noteq> 0" by simp
      with le have "count (mset xs) a = 1" by linarith
      with True show ?thesis by (simp only: if_True)
    next
      case False
      then have "count (mset xs) a = 0" by simp
      with False show ?thesis by (simp only: if_False)
    qed
  qed
qed

lemma once_subset: "once M \<Longrightarrow> N \<subseteq># M \<Longrightarrow> once N"
  unfolding once_def by (meson le_trans mset_subset_eq_count)

lemma once_add: "once (add_mset a M) \<longleftrightarrow> a \<notin># M \<and> once M"
proof
  assume o: "once (add_mset a M)"
  then have "count (add_mset a M) a \<le> 1" unfolding once_def by blast
  then have "Suc (count M a) \<le> 1" by (simp only: count_add_mset refl if_True)
  then have "count M a = 0" by linarith
  then have "a \<notin># M" unfolding not_in_iff .
  moreover have "count M b \<le> 1" for b
    using o[unfolded once_def, rule_format, of b] by (simp split: if_splits)
  ultimately show "a \<notin># M \<and> once M" by (simp add: once_def)
next
  assume "a \<notin># M \<and> once M"
  then show "once (add_mset a M)" by (auto simp: once_def not_in_iff)
qed

lemma history_ids_append_message [simp]:
  "history_ids (append_message m c) = history_ids c @ [msg_tweet_id m]"
  "history_ids (reopen m c) = history_ids c @ [msg_tweet_id m]"
  by (simp_all add: history_ids_def append_message_def reopen_def)

lemma primary_append_message [simp]:
  "primary_tweet_id (append_message m c) = primary_tweet_id c"
  "primary_tweet_id (reopen m c) = primary_tweet_id c"
  by (simp_all add: append_message_def reopen_def)

lemma msg_tweet_id_entry [simp]: "msg_tweet_id (message_entry tweet) = tweet_id tweet"
  by (simp add: message_entry_def)

text \<open>Changing one conversation of a dictionary by appending a message.\<close>

lemma dict_modify_ids:
  "dict_get d k = Some c \<Longrightarrow> history_ids (f c) = history_ids c @ [i] \<Longrightarrow>
     mset (dict_ids (dict_modify k f d)) = add_mset i (mset (dict_ids d))"
  by (induction d) (auto split: if_splits)

lemma dict_modify_primary:
  "(\<And>c. primary_tweet_id (f c) = primary_tweet_id c) \<Longrightarrow>
     map (\<lambda>(k, c). (k, primary_tweet_id c)) (dict_modify k f d) =
     map (\<lambda>(k, c). (k, primary_tweet_id c)) d"
  by (induction d) auto

lemma dict_set_ids:
  "mset (dict_ids (dict_set k v d)) \<subseteq># mset (dict_ids d) + mset (history_ids v)"
proof (induction d)
  case Nil
  show ?case by simp
next
  case (Cons p d)
  obtain k' v' where p: "p = (k', v')" by (cases p)
  show ?case
  proof (cases "k' = k")
    case True
    with p show ?thesis by simp
  next
    case False
    with p Cons show ?thesis by (simp add: add.assoc)
  qed
qed

lemma dict_set_pairs: "set (dict_set k v d) \<subseteq> insert (k, v) (set d)"
  by (induction d) (auto split: if_splits)

subsection \<open>Loading the store\<close>

lemma load_fold_ids:
  "mset (dict_ids (foldl (\<lambda>d conv. dict_set (primary_tweet_id conv) conv d) d cs))
     \<subseteq># mset (dict_ids d) + mset (store_ids cs)"
proof (induction cs arbitrary: d)
  case Nil
  show ?case by simp
next
  case (Cons c cs)
  have "mset (dict_ids (foldl (\<lambda>d conv. dict_set (primary_tweet_id conv) conv d)
                          (dict_set (primary_tweet_id c) c d) cs))
          \<subseteq># mset (dict_ids (dict_set (primary_tweet_id c) c d)) + mset (store_ids cs)"
    by (rule Cons.IH)
  also have "\<dots> \<subseteq># (mset (dict_ids d) + mset (history_ids c)) + mset (store_ids cs)"
    using dict_set_ids[of "primary_tweet_id c" c d] by (simp add: mset_subset_eq_mono_add_right_cancel)
  finally show ?case by (simp add: add.assoc)
qed

lemma load_ids: "mset (dict_ids (load_existing_convo S0)) \<subseteq># mset (store_ids S0)"
  unfolding load_existing_convo_def using load_fold_ids[of "[]" S0] by simp

lemma load_fold_pairs:
  "set (foldl (\<lambda>d conv. dict_set (primary_tweet_id conv) conv d) d cs)
     \<subseteq> set d \<union> (\<lambda>c. (primary_tweet_id c, c)) ` set cs"
proof (induction cs arbitrary: d)
  case Nil
  show ?case by simp
next
  case (Cons c cs)
  show ?case
    using Cons.IH[of "dict_set (primary_tweet_id c) c d"]
          dict_set_pairs[of "primary_tweet_id c" c d]
    by auto
qed

lemma load_pairs:
  "set (load_existing_convo S0) \<subseteq> (\<lambda>c. (primary_tweet_id c, c)) ` set S0"
  unfolding load_existing_convo_def using load_fold_pairs[of "[]" S0] by simp

text \<open>A store without two records of one root is loaded as it stands.\<close>

lemma load_fold_distinct:
  "distinct (map primary_tweet_id cs) \<Longrightarrow> fst ` set d \<inter> primary_tweet_id ` set cs = {} \<Longrightarrow>
     foldl (\<lambda>d conv. dict_set (primary_tweet_id conv) conv d) d cs =
       d @ map (\<lambda>c. (primary_tweet_id c, c)) cs"
proof (induction cs arbitrary: d)
  case Nil
  show ?case by simp
next
  case (Cons c cs)
  from Cons.prems have fresh: "primary_tweet_id c \<notin> fst ` set d" by auto
  have "fst ` set (d @ [(primary_tweet_id c, c)]) \<inter> primary_tweet_id ` set cs = {}"
    using Cons.prems by auto
  with Cons.prems Cons.IH[of "d @ [(primary_tweet_id c, c)]"] fresh
  show ?case by (simp add: dict_set_fresh)
qed

lemma load_distinct:
  "distinct (map primary_tweet_id S0) \<Longrightarrow>
     load_existing_convo S0 = map (\<lambda>c. (primary_tweet_id c, c)) S0"
  unfolding load_existing_convo_def using load_fold_distinct[of S0 "[]"] by simp

subsection \<open>Finalisation\<close>

lemma mset_sort_history [simp]: "mset (sort_history parse h) = mset h"
  by (simp add: sort_history_def)

lemma length_sort_history [simp]: "length (sort_history parse h) = length h"
  by (simp add: sort_history_def)

lemma sort_history_Nil [simp]: "sort_history parse h = [] \<longleftrightarrow> h = []"
  by (metis length_0_conv length_sort_history)

lemma strip_id [simp]: "msg_tweet_id (strip_customer_id m) = msg_tweet_id m"
  by (simp add: strip_customer_id_def)

lemma strip_ids [simp]: "map msg_tweet_id (map strip_customer_id h) = map msg_tweet_id h"
  by simp

lemma finalize_ids [simp]:
  "mset (history_ids (finalize_existing env df c)) = mset (history_ids c)"
  "mset (history_ids (finalize_new env df c)) = mset (history_ids c)"
proof -
  have "mset (map msg_tweet_id (sort_history (strptime env) (chat_history c))) =
          mset (map msg_tweet_id (chat_history c))"
    by (metis mset_map mset_sort_history)
  then show "mset (history_ids (finalize_existing env df c)) = mset (history_ids c)"
    "mset (history_ids (finalize_new env df c)) = mset (history_ids c)"
    by (simp_all add: finalize_existing_def finalize_new_def history_ids_def Let_def comp_def)
qed

lemma finalize_primary [simp]:
  "primary_tweet_id (finalize_existing env df c) = primary_tweet_id c"
  "primary_tweet_id (finalize_new env df c) = primary_tweet_id c"
  by (simp_all add: finalize_existing_def finalize_new_def Let_def)

lemma store_ids_finalize:
  "mset (store_ids (map (finalize_existing env df) cs)) = mset (store_ids cs)"
  "mset (store_ids (map (finalize_new env df) cs)) = mset (store_ids cs)"
  by (induction cs) simp_all

subsection \<open>The first loop\<close>

lemma identify_root_roots_only:
  assumes "roots_only df new_convo"
    and "\<And>r. root_id = Some r \<Longrightarrow>
           \<exists>row rest. filter (\<lambda>x. tweet_id x = r) df = row # rest \<and>
                      in_response_to_tweet_id row = []"
  shows "roots_only df (identify_root df existing_convo root_id new_convo)"
proof (cases root_id)
  case None
  with assms(1) show ?thesis by (simp add: identify_root_def)
next
  case (Some r)
  from assms(2)[OF Some] obtain row rest
    where row: "filter (\<lambda>x. tweet_id x = r) df = row # rest" "in_response_to_tweet_id row = []"
    by blast
  have "roots_only df (dict_set r (new_conversation r row) new_convo)"
    unfolding roots_only_def
  proof (intro ballI)
    fix p
    assume "p \<in> set (dict_set r (new_conversation r row) new_convo)"
    then have "p = (r, new_conversation r row) \<or> p \<in> set new_convo"
      using dict_set_pairs[of r "new_conversation r row" new_convo] by auto
    then show "case p of (k, v) \<Rightarrow>
                 primary_tweet_id v = k \<and> chat_history v = [] \<and>
                 (\<exists>row rest. filter (\<lambda>x. tweet_id x = k) df = row # rest \<and>
                              in_response_to_tweet_id row = [])"
      using assms(1) row by (auto simp: roots_only_def new_conversation_def)
  qed
  with assms(1) Some row show ?thesis by (simp add: identify_root_def)
qed

lemma identify_roots_roots_only:
  "identify_roots depth df existing_convo seen rows new_convo = Inr new_convo' \<Longrightarrow>
     roots_only df new_convo \<Longrightarrow> roots_only df new_convo'"
proof (induction rows arbitrary: new_convo)
  case Nil
  then show ?case by simp
next
  case (Cons tweet rest)
  show ?case
  proof (cases "tweet_id tweet \<in> seen")
    case True
    with Cons show ?thesis by simp
  next
    case False
    with Cons.prems(1) obtain root_id
      where root: "find_conversation_root depth (tweet_id tweet) df = Inr root_id"
        and rest: "identify_roots depth df existing_convo seen rest
                     (identify_root df existing_convo root_id new_convo) = Inr new_convo'"
      by (auto split: sum.splits)
    have "roots_only df (identify_root df existing_convo root_id new_convo)"
      using Cons.prems(2) find_conversation_root_Some[of depth "tweet_id tweet" df] root
      by (intro identify_root_roots_only) auto
    with rest show ?thesis by (rule Cons.IH)
  qed
qed

lemma roots_only_ids: "roots_only df new_convo \<Longrightarrow> dict_ids new_convo = []"
  by (induction new_convo) (auto simp: roots_only_def history_ids_def)

subsection \<open>The second loop\<close>

text \<open>One tweet changes nothing, or it extends one stored or one new conversation.\<close>

lemma attach_cases:
  obtains
    (same) "attach tweet root_id (ex, seen, new) = (ex, seen, new)"
  | (stored) k c where "root_id \<noteq> None" "k \<noteq> []" "dict_get ex k = Some c"
      "tweet_id tweet \<notin> set (history_ids c)"
      "attach tweet root_id (ex, seen, new) =
         (dict_modify k (reopen (message_entry tweet)) ex, insert (tweet_id tweet) seen, new)"
  | (fresh) r c where "root_id = Some r" "dict_get new r = Some c"
      "tweet_id tweet \<notin> set (history_ids c)"
      "attach tweet root_id (ex, seen, new) =
         (ex, seen, dict_modify r (append_message (message_entry tweet)) new)"
proof -
  have new_cases:
    "attach_new tweet root_id (ex, seen, new) = (ex, seen, new) \<or>
     (\<exists>r c. root_id = Some r \<and> dict_get new r = Some c \<and>
            tweet_id tweet \<notin> set (history_ids c) \<and>
            attach_new tweet root_id (ex, seen, new) =
              (ex, seen, dict_modify r (append_message (message_entry tweet)) new))"
    by (auto simp: attach_new_def split: option.splits)
  show thesis
  proof (cases "find_matching root_id ex")
    case None
    then have "attach tweet root_id (ex, seen, new) = attach_new tweet root_id (ex, seen, new)"
      by (simp add: attach_def)
    with new_cases same fresh show thesis by metis
  next
    case (Some k)
    show thesis
    proof (cases "k = []")
      case True
      with Some
      have "attach tweet root_id (ex, seen, new) = attach_new tweet root_id (ex, seen, new)"
        by (simp add: attach_def)
      with new_cases same fresh show thesis by metis
    next
      case False
      from find_matching_Some[OF Some] have root: "root_id \<noteq> None" by auto
      show thesis
      proof (cases "dict_get ex k")
        case None
        with Some False have "attach tweet root_id (ex, seen, new) = (ex, seen, new)"
          by (simp add: attach_def)
        then show thesis by (rule same)
      next
        case (Some c)
        show thesis
        proof (cases "tweet_id tweet \<in> set (history_ids c)")
          case True
          with Some \<open>find_matching root_id ex = Some k\<close> False
          have "attach tweet root_id (ex, seen, new) = (ex, seen, new)"
            by (simp add: attach_def)
          then show thesis by (rule same)
        next
          case notin: False
          with Some \<open>find_matching root_id ex = Some k\<close> False
          have "attach tweet root_id (ex, seen, new) =
                  (dict_modify k (reopen (message_entry tweet)) ex,
                   insert (tweet_id tweet) seen, new)"
            by (simp add: attach_def)
          with root False Some notin show thesis by (rule stored)
        qed
      qed
    qed
  qed
qed

lemma attach_effect:
  assumes "attach tweet root_id (ex, seen, new) = (ex', seen', new')"
  shows "(ex' = ex \<and> seen' = seen \<and> new' = new) \<or>
         (root_id \<noteq> None \<and>
          mset (dict_ids ex') = add_mset (tweet_id tweet) (mset (dict_ids ex)) \<and>
          seen' = insert (tweet_id tweet) seen \<and> new' = new) \<or>
         (root_id \<noteq> None \<and> ex' = ex \<and> seen' = seen \<and>
          mset (dict_ids new') = add_mset (tweet_id tweet) (mset (dict_ids new)))"
    and "map (\<lambda>(k, c). (k, primary_tweet_id c)) ex' = map (\<lambda>(k, c). (k, primary_tweet_id c)) ex"
    and "map (\<lambda>(k, c). (k, primary_tweet_id c)) new' = map (\<lambda>(k, c). (k, primary_tweet_id c)) new"
proof -
  have "((ex' = ex \<and> seen' = seen \<and> new' = new) \<or>
         (root_id \<noteq> None \<and>
          mset (dict_ids ex') = add_mset (tweet_id tweet) (mset (dict_ids ex)) \<and>
          seen' = insert (tweet_id tweet) seen \<and> new' = new) \<or>
         (root_id \<noteq> None \<and> ex' = ex \<and> seen' = seen \<and>
          mset (dict_ids new') = add_mset (tweet_id tweet) (mset (dict_ids new)))) \<and>
        map (\<lambda>(k, c). (k, primary_tweet_id c)) ex' = map (\<lambda>(k, c). (k, primary_tweet_id c)) ex \<and>
        map (\<lambda>(k, c). (k, primary_tweet_id c)) new' = map (\<lambda>(k, c). (k, primary_tweet_id c)) new"
  proof (cases tweet root_id ex seen new rule: attach_cases)
    case same
    with assms show ?thesis by simp
  next
    case (stored k c)
    with assms have eq: "ex' = dict_modify k (reopen (message_entry tweet)) ex"
      "seen' = insert (tweet_id tweet) seen" "new' = new" by simp_all
    have "mset (dict_ids ex') = add_mset (tweet_id tweet) (mset (dict_ids ex))"
      unfolding eq using stored(3) by (rule dict_modify_ids) simp
    moreover have "map (\<lambda>(k, c). (k, primary_tweet_id c)) ex' =
                   map (\<lambda>(k, c). (k, primary_tweet_id c)) ex"
      unfolding eq by (rule dict_modify_primary) simp
    ultimately show ?thesis using stored(1) eq by simp
  next
    case (fresh r c)
    with assms have eq: "ex' = ex" "seen' = seen"
      "new' = dict_modify r (append_message (message_entry tweet)) new" by simp_all
    have "mset (dict_ids new') = add_mset (tweet_id tweet) (mset (dict_ids new))"
      unfolding eq using fresh(2) by (rule dict_modify_ids) simp
    moreover have "map (\<lambda>(k, c). (k, primary_tweet_id c)) new' =
                   map (\<lambda>(k, c). (k, primary_tweet_id c)) new"
      unfolding eq by (rule dict_modify_primary) simp
    ultimately show ?thesis using fresh(1) eq by simp
  qed
  then show "(ex' = ex \<and> seen' = seen \<and> new' = new) \<or>
         (root_id \<noteq> None \<and>
          mset (dict_ids ex') = add_mset (tweet_id tweet) (mset (dict_ids ex)) \<and>
          seen' = insert (tweet_id tweet) seen \<and> new' = new) \<or>
         (root_id \<noteq> None \<and> ex' = ex \<and> seen' = seen \<and>
          mset (dict_ids new') = add_mset (tweet_id tweet) (mset (dict_ids new)))"
    and "map (\<lambda>(k, c). (k, primary_tweet_id c)) ex' = map (\<lambda>(k, c). (k, primary_tweet_id c)) ex"
    and "map (\<lambda>(k, c). (k, primary_tweet_id c)) new' = map (\<lambda>(k, c). (k, primary_tweet_id c)) new"
    by blast+
qed

lemma mset_add_set: "mset xs = add_mset a (mset ys) \<Longrightarrow> set xs = insert a (set ys)"
  by (metis set_mset_add_mset_insert set_mset_mset)

lemma build_threads_keys:
  "build_threads depth df rows (ex, seen, new) = Inr (ex', seen', new') \<Longrightarrow>
     map (\<lambda>(k, c). (k, primary_tweet_id c)) ex' = map (\<lambda>(k, c). (k, primary_tweet_id c)) ex \<and>
     map (\<lambda>(k, c). (k, primary_tweet_id c)) new' = map (\<lambda>(k, c). (k, primary_tweet_id c)) new"
proof (induction rows arbitrary: ex seen new)
  case Nil
  then show ?case by simp
next
  case (Cons tweet rest)
  show ?case
  proof (cases "tweet_id tweet \<in> seen")
    case True
    with Cons show ?thesis by simp
  next
    case False
    with Cons.prems obtain root_id
      where rest: "build_threads depth df rest (attach tweet root_id (ex, seen, new)) =
                     Inr (ex', seen', new')"
      by (auto split: sum.splits)
    obtain ex1 seen1 new1 where st: "attach tweet root_id (ex, seen, new) = (ex1, seen1, new1)"
      by (cases "attach tweet root_id (ex, seen, new)") auto
    from Cons.IH[OF rest[unfolded st]] attach_effect(2,3)[OF st] show ?thesis by simp
  qed
qed

text \<open>
  The ids that the second loop adds are ids of rows that were not seen before and whose
  walk ended at a root.
\<close>

lemma build_threads_added:
  "build_threads depth df rows (ex, seen, new) = Inr (ex', seen', new') \<Longrightarrow>
     seen \<subseteq> seen' \<and>
     set (dict_ids ex') \<union> set (dict_ids new') \<subseteq>
       set (dict_ids ex) \<union> set (dict_ids new) \<union>
       {tweet_id r |r. r \<in> set rows \<and> tweet_id r \<notin> seen \<and>
                      (\<exists>x. find_conversation_root depth (tweet_id r) df = Inr (Some x))}"
proof (induction rows arbitrary: ex seen new)
  case Nil
  then show ?case by simp
next
  case (Cons tweet rest)
  show ?case
  proof (cases "tweet_id tweet \<in> seen")
    case True
    with Cons.prems have "build_threads depth df rest (ex, seen, new) = Inr (ex', seen', new')"
      by simp
    from Cons.IH[OF this] show ?thesis by fastforce
  next
    case False
    with Cons.prems obtain root_id
      where root: "find_conversation_root depth (tweet_id tweet) df = Inr root_id"
        and rest: "build_threads depth df rest (attach tweet root_id (ex, seen, new)) =
                     Inr (ex', seen', new')"
      by (auto split: sum.splits)
    obtain ex1 seen1 new1 where st: "attach tweet root_id (ex, seen, new) = (ex1, seen1, new1)"
      by (cases "attach tweet root_id (ex, seen, new)") auto
    note ih = Cons.IH[OF rest[unfolded st]]
    have step: "seen \<subseteq> seen1 \<and>
                set (dict_ids ex1) \<union> set (dict_ids new1) \<subseteq>
                  set (dict_ids ex) \<union> set (dict_ids new) \<union>
                  (if root_id = None then {} else {tweet_id tweet})"
      using attach_effect(1)[OF st]
      by (elim disjE conjE) (auto dest: mset_add_set)
    have root': "\<exists>x. find_conversation_root depth (tweet_id tweet) df = Inr (Some x)"
      if "root_id \<noteq> None"
      using that root by auto
    show ?thesis
    proof (intro conjI subsetI)
      fix i assume "i \<in> seen"
      with step ih show "i \<in> seen'" by auto
    next
      fix i assume "i \<in> set (dict_ids ex') \<union> set (dict_ids new')"
      with ih have "i \<in> set (dict_ids ex1) \<union> set (dict_ids new1) \<or>
                    (\<exists>r. i = tweet_id r \<and> r \<in> set rest \<and> tweet_id r \<notin> seen1 \<and>
                         (\<exists>x. find_conversation_root depth (tweet_id r) df = Inr (Some x)))"
        by auto
      then show "i \<in> set (dict_ids ex) \<union> set (dict_ids new) \<union>
                   {tweet_id r |r. r \<in> set (tweet # rest) \<and> tweet_id r \<notin> seen \<and>
                      (\<exists>x. find_conversation_root depth (tweet_id r) df = Inr (Some x))}"
      proof
        assume "i \<in> set (dict_ids ex1) \<union> set (dict_ids new1)"
        with step have "i \<in> set (dict_ids ex) \<union> set (dict_ids new) \<or>
                        (root_id \<noteq> None \<and> i = tweet_id tweet)"
          by (auto split: if_splits)
        with False root' show ?thesis by auto
      next
        assume "\<exists>r. i = tweet_id r \<and> r \<in> set rest \<and> tweet_id r \<notin> seen1 \<and>
                   (\<exists>x. find_conversation_root depth (tweet_id r) df = Inr (Some x))"
        with step show ?thesis by auto
      qed
    qed
  qed
qed

text \<open>The second loop keeps the ids of the messages free of repetition.\<close>

lemma build_threads_once:
  "build_threads depth df rows (ex, seen, new) = Inr (ex', seen', new') \<Longrightarrow>
   distinct (map tweet_id rows) \<Longrightarrow>
   once (mset (dict_ids ex) + mset (dict_ids new)) \<Longrightarrow>
   set (dict_ids ex) \<subseteq> seen \<Longrightarrow>
   set (dict_ids new) \<inter> tweet_id ` set rows = {} \<Longrightarrow>
     once (mset (dict_ids ex') + mset (dict_ids new'))"
proof (induction rows arbitrary: ex seen new)
  case Nil
  then show ?case by simp
next
  case (Cons tweet rest)
  show ?case
  proof (cases "tweet_id tweet \<in> seen")
    case True
    with Cons.prems have "build_threads depth df rest (ex, seen, new) = Inr (ex', seen', new')"
      by simp
    from this show ?thesis using Cons.prems by (intro Cons.IH) auto
  next
    case False
    with Cons.prems(1) obtain root_id
      where rest: "build_threads depth df rest (attach tweet root_id (ex, seen, new)) =
                     Inr (ex', seen', new')"
      by (auto split: sum.splits)
    obtain ex1 seen1 new1 where st: "attach tweet root_id (ex, seen, new) = (ex1, seen1, new1)"
      by (cases "attach tweet root_id (ex, seen, new)") auto
    have fresh: "tweet_id tweet \<notin># mset (dict_ids ex) + mset (dict_ids new)"
      using False Cons.prems(4,5) by auto
    have d: "distinct (map tweet_id rest)" and nin: "tweet_id tweet \<notin> tweet_id ` set rest"
      using Cons.prems(2) by auto
    from attach_effect(1)[OF st]
    have "once (mset (dict_ids ex1) + mset (dict_ids new1)) \<and>
          set (dict_ids ex1) \<subseteq> seen1 \<and>
          set (dict_ids new1) \<inter> tweet_id ` set rest = {}"
    proof (elim disjE conjE)
      assume "ex1 = ex" "seen1 = seen" "new1 = new"
      with Cons.prems show ?thesis by auto
    next
      assume a: "mset (dict_ids ex1) = add_mset (tweet_id tweet) (mset (dict_ids ex))"
        "seen1 = insert (tweet_id tweet) seen" "new1 = new"
      have "once (add_mset (tweet_id tweet) (mset (dict_ids ex) + mset (dict_ids new)))"
        using fresh Cons.prems(3) by (simp only: once_add) simp
      moreover have "set (dict_ids ex1) = insert (tweet_id tweet) (set (dict_ids ex))"
        using a(1) by (rule mset_add_set)
      ultimately show ?thesis using a Cons.prems(4,5) by auto
    next
      assume a: "ex1 = ex" "seen1 = seen"
        "mset (dict_ids new1) = add_mset (tweet_id tweet) (mset (dict_ids new))"
      have "once (add_mset (tweet_id tweet) (mset (dict_ids ex) + mset (dict_ids new)))"
        using fresh Cons.prems(3) by (simp only: once_add) simp
      moreover have "set (dict_ids new1) = insert (tweet_id tweet) (set (dict_ids new))"
        using a(3) by (rule mset_add_set)
      ultimately show ?thesis using a Cons.prems(4,5) nin by auto
    qed
    with rest[unfolded st] d show ?thesis by (intro Cons.IH) auto
  qed
qed

subsection \<open>The result of a run\<close>

lemma ingest_Inr:
  assumes "ingest env rows S0 = Inr ret"
  obtains new ex' seen' new' where
    "identify_roots (recursion_limit env) (clean_df rows) (load_existing_convo S0)
       (load_existing_tweet_ids S0) (clean_df rows) [] = Inr new"
    "build_threads (recursion_limit env) (clean_df rows) (clean_df rows)
       (load_existing_convo S0, load_existing_tweet_ids S0, new) = Inr (ex', seen', new')"
    "ret = map (finalize_existing env (clean_df rows)) (dict_values ex') @
           map (finalize_new env (clean_df rows)) (dict_values new')"
  using assms unfolding ingest_def Let_def
  by (auto split: sum.splits prod.splits)

lemma convert_Some:
  "convert_twitter_csv_to_json env (Some rows) S0 = Inr (ret, S1) \<longleftrightarrow>
     ingest env rows S0 = Inr ret \<and> S1 = ret"
  by (auto simp: convert_twitter_csv_to_json_def split: sum.splits)

lemma roots_only_Nil: "roots_only df []"
  by (simp add: roots_only_def)

lemma store_ids_dict_values: "store_ids (dict_values d) = dict_ids d"
  by (simp add: dict_ids_def)

text \<open>Every id of the new store was in the old store or is the id of a new row with a root.\<close>

lemma ingest_ids:
  assumes "ingest env rows S0 = Inr ret"
  shows "set (store_ids ret) \<subseteq>
           set (store_ids S0) \<union>
           {tweet_id r |r. r \<in> set (clean_df rows) \<and> tweet_id r \<notin> set (store_ids S0) \<and>
              (\<exists>x. find_conversation_root (recursion_limit env) (tweet_id r) (clean_df rows) =
                     Inr (Some x))}"
proof -
  from assms obtain new ex' seen' new' where
    l1: "identify_roots (recursion_limit env) (clean_df rows) (load_existing_convo S0)
           (load_existing_tweet_ids S0) (clean_df rows) [] = Inr new"
    and l2: "build_threads (recursion_limit env) (clean_df rows) (clean_df rows)
           (load_existing_convo S0, load_existing_tweet_ids S0, new) = Inr (ex', seen', new')"
    and ret: "ret = map (finalize_existing env (clean_df rows)) (dict_values ex') @
                    map (finalize_new env (clean_df rows)) (dict_values new')"
    by (rule ingest_Inr)
  have new: "dict_ids new = []"
    using identify_roots_roots_only[OF l1 roots_only_Nil] by (rule roots_only_ids)
  have "mset (store_ids ret) = mset (dict_ids ex') + mset (dict_ids new')"
    unfolding ret by (simp add: store_ids_finalize store_ids_dict_values)
  then have "set (store_ids ret) = set (dict_ids ex') \<union> set (dict_ids new')"
    by (metis mset_append set_append mset_eq_setD)
  moreover have "set (dict_ids (load_existing_convo S0)) \<subseteq> set (store_ids S0)"
    using load_ids[of S0] by (metis set_mset_mono set_mset_mset)
  ultimately show ?thesis
    using build_threads_added[OF l2] new
    by (auto simp: load_existing_tweet_ids_def)
qed

text \<open>Every root of the new store was a root of the old store or is a row without parent.\<close>

lemma ingest_primary:
  assumes "ingest env rows S0 = Inr ret" "c \<in> set ret"
  shows "primary_tweet_id c \<in> primary_tweet_id ` set S0 \<or>
         (\<exists>row rest. filter (\<lambda>x. tweet_id x = primary_tweet_id c) (clean_df rows) = row # rest \<and>
                      in_response_to_tweet_id row = [])"
proof -
  from assms(1) obtain new ex' seen' new' where
    l1: "identify_roots (recursion_limit env) (clean_df rows) (load_existing_convo S0)
           (load_existing_tweet_ids S0) (clean_df rows) [] = Inr new"
    and l2: "build_threads (recursion_limit env) (clean_df rows) (clean_df rows)
           (load_existing_convo S0, load_existing_tweet_ids S0, new) = Inr (ex', seen', new')"
    and ret: "ret = map (finalize_existing env (clean_df rows)) (dict_values ex') @
                    map (finalize_new env (clean_df rows)) (dict_values new')"
    by (rule ingest_Inr)
  note keys = build_threads_keys[OF l2]
  have ro: "roots_only (clean_df rows) new"
    using identify_roots_roots_only[OF l1 roots_only_Nil] .
  from assms(2) ret have "primary_tweet_id c \<in> primary_tweet_id ` snd ` set ex' \<or>
                          primary_tweet_id c \<in> primary_tweet_id ` snd ` set new'"
    by (force simp: dict_values_def)
  then show ?thesis
  proof
    assume "primary_tweet_id c \<in> primary_tweet_id ` snd ` set ex'"
    then have "primary_tweet_id c \<in> snd ` set (map (\<lambda>(k, c). (k, primary_tweet_id c)) ex')"
      by force
    with keys have "primary_tweet_id c \<in>
                      snd ` set (map (\<lambda>(k, c). (k, primary_tweet_id c)) (load_existing_convo S0))"
      by simp
    then have "primary_tweet_id c \<in> primary_tweet_id ` snd ` set (load_existing_convo S0)"
      by force
    with load_pairs[of S0] show ?thesis by auto
  next
    assume "primary_tweet_id c \<in> primary_tweet_id ` snd ` set new'"
    then have "(primary_tweet_id c) \<in> snd ` set (map (\<lambda>(k, c). (k, primary_tweet_id c)) new')"
      by force
    with keys have "primary_tweet_id c \<in> snd ` set (map (\<lambda>(k, c). (k, primary_tweet_id c)) new)"
      by simp
    then obtain k v where "(k, v) \<in> set new" "primary_tweet_id v = primary_tweet_id c"
      by force
    with ro show ?thesis by (auto simp: roots_only_def)
  qed
qed

text \<open>A run keeps the ids of the stored messages free of repetition.\<close>

lemma ingest_once:
  assumes "distinct (store_ids S0)" "ingest env rows S0 = Inr ret"
  shows "distinct (store_ids ret)"
proof -
  from assms(2) obtain new ex' seen' new' where
    l1: "identify_roots (recursion_limit env) (clean_df rows) (load_existing_convo S0)
           (load_existing_tweet_ids S0) (clean_df rows) [] = Inr new"
    and l2: "build_threads (recursion_limit env) (clean_df rows) (clean_df rows)
           (load_existing_convo S0, load_existing_tweet_ids S0, new) = Inr (ex', seen', new')"
    and ret: "ret = map (finalize_existing env (clean_df rows)) (dict_values ex') @
                    map (finalize_new env (clean_df rows)) (dict_values new')"
    by (rule ingest_Inr)
  have new: "dict_ids new = []"
    using identify_roots_roots_only[OF l1 roots_only_Nil] by (rule roots_only_ids)
  have "once (mset (store_ids S0))" using assms(1) by (simp add: once_distinct)
  then have o: "once (mset (dict_ids (load_existing_convo S0)))"
    using load_ids[of S0] by (rule once_subset)
  have sub: "set (dict_ids (load_existing_convo S0)) \<subseteq> load_existing_tweet_ids S0"
    unfolding load_existing_tweet_ids_def
    using load_ids[of S0] by (metis set_mset_mono set_mset_mset)
  have "once (mset (dict_ids ex') + mset (dict_ids new'))"
    using l2 clean_df_distinct[of rows] o sub new
    by (intro build_threads_once[OF l2]) simp_all
  moreover have "mset (store_ids ret) = mset (dict_ids ex') + mset (dict_ids new')"
    unfolding ret by (simp add: store_ids_finalize store_ids_dict_values)
  ultimately show ?thesis by (simp add: once_distinct)
qed

lemma store_ids_mark_processed [simp]: "store_ids (mark_processed ids S) = store_ids S"
  by (induction S) (simp_all add: mark_processed_def history_ids_def)

subsection \<open>The limit of 4000 rows\<close>

lemma convert_cong:
  "clean_df rows = clean_df rows' \<Longrightarrow>
     convert_twitter_csv_to_json env (Some rows) S0 =
     convert_twitter_csv_to_json env (Some rows') S0"
  by (simp add: convert_twitter_csv_to_json_def ingest_def)

text \<open>
  Claim C9. The run reads the table through \<^verbatim>\<open>df[:4000]\<close>: it gives the same result, value or
  error, as the run on the first 4000 rows alone. An id that occurs only after row 4000
  and is not in the store already is in no chat history of the new store, and it is the
  root of no conversation unless it was one before.
\<close>

theorem rows_after_4000_are_ignored:
  "convert_twitter_csv_to_json env (Some rows) S0 =
     convert_twitter_csv_to_json env (Some (take 4000 rows)) S0 \<and>
   (\<forall>ret S1 t.
      convert_twitter_csv_to_json env (Some rows) S0 = Inr (ret, S1) \<and>
      t \<notin> tweet_id ` set (take 4000 rows) \<longrightarrow>
        (t \<notin> set (store_ids S0) \<longrightarrow> t \<notin> set (store_ids S1)) \<and>
        (t \<notin> primary_tweet_id ` set S0 \<longrightarrow> t \<notin> primary_tweet_id ` set S1))"
proof (intro conjI allI impI)
  show "convert_twitter_csv_to_json env (Some rows) S0 =
          convert_twitter_csv_to_json env (Some (take 4000 rows)) S0"
    by (rule convert_cong) (simp add: clean_df_take)
next
  fix ret S1 t
  assume a: "convert_twitter_csv_to_json env (Some rows) S0 = Inr (ret, S1) \<and>
             t \<notin> tweet_id ` set (take 4000 rows)"
  then have run: "ingest env rows S0 = Inr S1" by (simp add: convert_Some)
  have out: "t \<notin> tweet_id ` set (clean_df rows)"
    using a clean_df_subset[of rows] by auto
  {
    assume "t \<notin> set (store_ids S0)"
    with ingest_ids[OF run] out show "t \<notin> set (store_ids S1)" by auto
  next
    assume old: "t \<notin> primary_tweet_id ` set S0"
    show "t \<notin> primary_tweet_id ` set S1"
    proof
      assume "t \<in> primary_tweet_id ` set S1"
      then obtain c where c: "c \<in> set S1" "primary_tweet_id c = t" by auto
      from ingest_primary[OF run c(1)] old c(2)
      obtain row rest where "filter (\<lambda>x. tweet_id x = t) (clean_df rows) = row # rest"
        by auto
      then have "row \<in> set (filter (\<lambda>x. tweet_id x = t) (clean_df rows))" by simp
      then have "t \<in> tweet_id ` set (clean_df rows)" by auto
      with out show False by contradiction
    qed
  }
qed

lemma drop_duplicates_from_replicate:
  "drop_duplicates_from seen (replicate n r) =
     (if n = 0 \<or> tweet_id r \<in> set seen then [] else [r])"
  by (induction n arbitrary: seen) auto

theorem rows_after_4000_are_ignored_witness:
  "convert_twitter_csv_to_json sample_env (Some long_table) [] =
     convert_twitter_csv_to_json sample_env (Some (replicate 4000 root_tweet)) [] \<and>
   convert_twitter_csv_to_json sample_env (Some long_table) [] =
     Inr ([fresh_conversation], [fresh_conversation]) \<and>
   ''9'' \<notin> set (store_ids [fresh_conversation]) \<and>
   ''9'' \<notin> primary_tweet_id ` set [fresh_conversation]"
proof -
  note inst = rows_after_4000_are_ignored[of sample_env long_table "[]"]
  have tk: "take 4000 long_table = replicate 4000 root_tweet"
    by (simp add: long_table_def)
  have "clean_df long_table = clean_df [root_tweet]"
    by (simp add: clean_df_def drop_duplicates_def tk drop_duplicates_from_replicate)
  then have "convert_twitter_csv_to_json sample_env (Some long_table) [] =
             convert_twitter_csv_to_json sample_env (Some [root_tweet]) []"
    by (rule convert_cong)
  also have "\<dots> = Inr ([fresh_conversation], [fresh_conversation])"
    by code_simp
  finally have run: "convert_twitter_csv_to_json sample_env (Some long_table) [] =
                       Inr ([fresh_conversation], [fresh_conversation])" .
  have late: "''9'' \<notin> tweet_id ` set (take 4000 long_table)"
    by (simp add: tk root_tweet_def)
  from inst run late
  have "''9'' \<notin> set (store_ids [fresh_conversation]) \<and>
        ''9'' \<notin> primary_tweet_id ` set [fresh_conversation]"
    by auto
  with inst run tk show ?thesis by simp
qed

subsection \<open>Messages whose parent is not in the table\<close>

text \<open>
  Claim C2, as the code has it. Let a row of the cleaned table refer to a parent that is
  not in the table. The walk from that row does not fail (it needs two frames) and finds no
  root: \<^verbatim>\<open>find_conversation_root\<close> returns \<^verbatim>\<open>None\<close>. The message is not made a root: after a
  run that ends without error its id is in no chat history unless it was stored before,
  and it is the root of no conversation unless it was one before.
\<close>

theorem unresolvable_parent_is_left_out:
  assumes "m \<in> set (clean_df rows)"
    and "in_response_to_tweet_id m \<noteq> []"
    and "in_response_to_tweet_id m \<notin> tweet_id ` set (clean_df rows)"
    and "convert_twitter_csv_to_json env (Some rows) S0 = Inr (ret, S1)"
  shows "find_conversation_root (Suc (Suc n)) (tweet_id m) (clean_df rows) = Inr None \<and>
         (tweet_id m \<notin> set (store_ids S0) \<longrightarrow> tweet_id m \<notin> set (store_ids S1)) \<and>
         (tweet_id m \<notin> primary_tweet_id ` set S0 \<longrightarrow> tweet_id m \<notin> primary_tweet_id ` set S1)"
proof (intro conjI impI)
  have ne: "tweet_id m \<noteq> []" using assms(1) by (simp add: clean_df_def)
  note walk = find_conversation_root_missing_parent
                [OF clean_df_distinct assms(1) ne assms(2) assms(3)]
  from assms(4) have run: "ingest env rows S0 = Inr S1" by (simp add: convert_Some)
  show "find_conversation_root (Suc (Suc n)) (tweet_id m) (clean_df rows) = Inr None"
    by (rule walk(1))
  {
    assume "tweet_id m \<notin> set (store_ids S0)"
    with ingest_ids[OF run] walk(2) show "tweet_id m \<notin> set (store_ids S1)" by auto
  next
    assume old: "tweet_id m \<notin> primary_tweet_id ` set S0"
    show "tweet_id m \<notin> primary_tweet_id ` set S1"
    proof
      assume "tweet_id m \<in> primary_tweet_id ` set S1"
      then obtain c where c: "c \<in> set S1" "primary_tweet_id c = tweet_id m" by auto
      from ingest_primary[OF run c(1)] old c(2)
      obtain row rest
        where row: "filter (\<lambda>x. tweet_id x = tweet_id m) (clean_df rows) = row # rest"
          "in_response_to_tweet_id row = []"
        by auto
      have "filter (\<lambda>x. tweet_id x = tweet_id m) (clean_df rows) = [m]"
        using clean_df_distinct[of rows] assms(1) by (rule filter_unique_row)
      with row assms(2) show False by simp
    qed
  }
qed

theorem unresolvable_parent_is_left_out_witness:
  "find_conversation_root 900 ''3'' [root_tweet, followup_tweet] = Inr None \<and>
   convert_twitter_csv_to_json sample_env (Some [root_tweet, followup_tweet]) [] =
     Inr ([fresh_conversation], [fresh_conversation]) \<and>
   ''3'' \<notin> set (store_ids [fresh_conversation]) \<and>
   ''3'' \<notin> primary_tweet_id ` set [fresh_conversation]"
proof -
  have cl: "clean_df [root_tweet, followup_tweet] = [root_tweet, followup_tweet]"
    by code_simp
  have run: "convert_twitter_csv_to_json sample_env (Some [root_tweet, followup_tweet]) [] =
               Inr ([fresh_conversation], [fresh_conversation])"
    by code_simp
  have m: "followup_tweet \<in> set (clean_df [root_tweet, followup_tweet])"
    unfolding cl by simp
  have parent: "in_response_to_tweet_id followup_tweet \<noteq> []"
    by (simp add: followup_tweet_def)
  have missing: "in_response_to_tweet_id followup_tweet \<notin>
                   tweet_id ` set (clean_df [root_tweet, followup_tweet])"
    unfolding cl by (simp add: followup_tweet_def root_tweet_def)
  have n: "Suc (Suc 898) = (900::nat)" by simp
  have t: "tweet_id followup_tweet = ''3''" by (simp add: followup_tweet_def)
  note inst = unresolvable_parent_is_left_out
                [OF m parent missing run, of 898, unfolded cl n t]
  from inst run show ?thesis by simp
qed

text \<open>
  The claim as the specification states it fails on a table whose only row answers a tweet
  that is not in the table: the run ends without error and the store stays empty, so the
  message is the root of no conversation.
\<close>

theorem unresolvable_parent_counterexample:
  "convert_twitter_csv_to_json sample_env (Some [followup_tweet]) [] = Inr ([], [])"
  by code_simp

subsection \<open>Message ids across runs\<close>

lemma convert_once:
  assumes "distinct (store_ids S0)" "convert_twitter_csv_to_json env csv S0 = Inr (ret, S1)"
  shows "distinct (store_ids S1)"
proof (cases csv)
  case None
  with assms show ?thesis by (simp add: convert_twitter_csv_to_json_def)
next
  case (Some rows)
  with assms(2) have "ingest env rows S0 = Inr S1" by (simp add: convert_Some)
  with assms(1) show ?thesis by (rule ingest_once)
qed

text \<open>
  Claim C4. In a raw store without repeated message ids, and so in the empty store, every
  sequence of runs that ends without error leaves a store in which the ids of all the
  messages of all the chat histories are pairwise different: no id is in two histories,
  none is twice in one. A row whose id was stored before, or stands earlier in the table,
  adds nothing.
\<close>

theorem message_ids_stay_unique:
  "distinct (store_ids S0) \<Longrightarrow> ingest_runs runs S0 = Inr S \<Longrightarrow> distinct (store_ids S)"
proof (induction runs arbitrary: S0)
  case Nil
  then show ?case by simp
next
  case (Cons run rest)
  obtain env csv tagged_ids where run: "run = (env, csv, tagged_ids)" by (cases run)
  with Cons.prems(2) obtain ret S1
    where c: "convert_twitter_csv_to_json env csv S0 = Inr (ret, S1)"
      and r: "ingest_runs rest (mark_processed tagged_ids S1) = Inr S"
    by (auto split: sum.splits)
  from Cons.prems(1) c have "distinct (store_ids S1)" by (rule convert_once)
  then have "distinct (store_ids (mark_processed tagged_ids S1))" by simp
  from this r show ?case by (rule Cons.IH)
qed

theorem message_ids_stay_unique_witness:
  "ingest_runs [(sample_env, Some [root_tweet, reply_tweet, reply_tweet], {''1''}),
                (sample_env, Some (thread_table @ thread_table), {})] [] =
     Inr [settled_thread, orphan_followup] \<and>
   store_ids [settled_thread, orphan_followup] = [''1'', ''2'', ''3''] \<and>
   distinct (store_ids [settled_thread, orphan_followup])"
proof -
  have run: "ingest_runs [(sample_env, Some [root_tweet, reply_tweet, reply_tweet], {''1''}),
                          (sample_env, Some (thread_table @ thread_table), {})] [] =
               Inr [settled_thread, orphan_followup]"
    by code_simp
  have ids: "store_ids [settled_thread, orphan_followup] = [''1'', ''2'', ''3'']"
    by code_simp
  have "distinct (store_ids ([]::conversation list))" by simp
  from this run have "distinct (store_ids [settled_thread, orphan_followup])"
    by (rule message_ids_stay_unique)
  with run ids show ?thesis by simp
qed

subsection \<open>Two records of one root\<close>

text \<open>
  Claim C3 fails on the raw store. The store holds the thread of the tweets 1 and 2, whose
  tail is tweet 2. The table holds the thread and the follow-up, tweet 3. The root of tweet
  3 is tweet 1, which is no stored tail, so the first loop opens a new conversation under
  the root 1, and the result, which is what the run writes, has two records with the
  primary tweet id 1.
\<close>

theorem raw_store_two_records_of_one_root:
  "convert_twitter_csv_to_json sample_env (Some thread_table) [settled_thread] =
     Inr ([settled_thread, orphan_followup], [settled_thread, orphan_followup]) \<and>
   map primary_tweet_id [settled_thread, orphan_followup] = [''1'', ''1'']"
  by code_simp

text \<open>
  Claim C5 fails on the same input. The second run on the same table finds every id in the
  store and attaches nothing, but loading the store puts both records under the key 1, so
  the second record replaces the first and the run writes one conversation where the first
  run wrote two: the history of the tweets 1 and 2 is gone.
\<close>

theorem second_run_changes_the_store:
  "convert_twitter_csv_to_json sample_env (Some thread_table) [settled_thread] =
     Inr ([settled_thread, orphan_followup], [settled_thread, orphan_followup]) \<and>
   convert_twitter_csv_to_json sample_env (Some thread_table) [settled_thread, orphan_followup] =
     Inr ([orphan_followup], [orphan_followup]) \<and>
   length [settled_thread, orphan_followup] \<noteq> length [orphan_followup]"
  by code_simp

subsection \<open>Reopening a settled conversation\<close>


lemma build_threads_seen:
  "\<forall>r \<in> set rows. tweet_id r \<in> seen \<Longrightarrow>
     build_threads depth df rows (ex, seen, new) = Inr (ex, seen, new)"
  by (induction rows) auto

lemma build_threads_append:
  "build_threads depth df (xs @ ys) st =
     (case build_threads depth df xs st of
        Inl e \<Rightarrow> Inl e
      | Inr st' \<Rightarrow> build_threads depth df ys st')"
  by (induction xs arbitrary: st) (auto split: sum.splits)

lemma dict_modify_length [simp]: "length (dict_modify k f d) = length d"
  by (induction d) auto

lemma dict_modify_nth:
  "i < length d \<Longrightarrow>
     snd (dict_modify k f d ! i) = snd (d ! i) \<or> snd (dict_modify k f d ! i) = f (snd (d ! i))"
proof (induction d arbitrary: i)
  case Nil
  then show ?case by simp
next
  case (Cons p d)
  obtain k' v' where p: "p = (k', v')" by (cases p) auto
  show ?case
  proof (cases i)
    case 0
    with p show ?thesis by simp
  next
    case (Suc j)
    with Cons.prems have "j < length d" by simp
    from Cons.IH[OF this] Suc p show ?thesis by simp
  qed
qed

text \<open>
  When exactly one row of the table is not seen yet, the second loop is one call of
  \<open>attach\<close>, for that row.
\<close>

lemma build_threads_one_new:
  assumes one: "filter (\<lambda>r. tweet_id r \<notin> seen) rows = [m]"
    and run: "build_threads depth df rows (ex, seen, new) = Inr st'"
  shows "\<exists>root_id. find_conversation_root depth (tweet_id m) df = Inr root_id \<and>
                   st' = attach m root_id (ex, seen, new)"
proof -
  from one obtain pre post where split: "rows = pre @ m # post"
    and pre: "\<forall>r \<in> set pre. tweet_id r \<in> seen"
    and m: "tweet_id m \<notin> seen"
    and rest: "filter (\<lambda>r. tweet_id r \<notin> seen) post = []"
    unfolding filter_eq_Cons_iff by auto
  from rest have post: "\<forall>r \<in> set post. tweet_id r \<in> seen"
    by (simp add: filter_empty_conv)
  from run pre have "build_threads depth df (m # post) (ex, seen, new) = Inr st'"
    by (simp add: split build_threads_append build_threads_seen)
  with m obtain root_id
    where root: "find_conversation_root depth (tweet_id m) df = Inr root_id"
      and after: "build_threads depth df post (attach m root_id (ex, seen, new)) = Inr st'"
    by (auto split: sum.splits)
  obtain ex1 seen1 new1 where st: "attach m root_id (ex, seen, new) = (ex1, seen1, new1)"
    by (cases "attach m root_id (ex, seen, new)") auto
  from attach_effect(1)[OF st] have "seen \<subseteq> seen1" by auto
  with post have "\<forall>r \<in> set post. tweet_id r \<in> seen1" by auto
  then have "build_threads depth df post (ex1, seen1, new1) = Inr (ex1, seen1, new1)"
    by (rule build_threads_seen)
  with after st have "st' = attach m root_id (ex, seen, new)" by simp
  with root show ?thesis by blast
qed

text \<open>A message that is not earlier than any other stays last when the list is sorted.\<close>

lemma insort_key_before_last:
  "f x \<le> f m \<Longrightarrow> insort_key f x (ys @ [m]) = insort_key f x ys @ [m]"
  by (induction ys) auto

lemma sort_key_snoc_last:
  "\<forall>x \<in> set h. f x \<le> f m \<Longrightarrow> sort_key f (h @ [m]) = sort_key f h @ [m]"
proof (induction h)
  case Nil
  show ?case by simp
next
  case (Cons x h)
  then have "sort_key f (h @ [m]) = sort_key f h @ [m]" by simp
  with Cons.prems show ?case by (simp add: insort_key_before_last)
qed

lemma sort_history_last:
  assumes "\<forall>x \<in> set h. \<forall>a b. parse (msg_created_at x) = Some a \<and>
             parse (msg_created_at m) = Some b \<longrightarrow> a \<le> b"
  shows "last (sort_history parse (h @ [m])) = m"
proof (cases "\<forall>x \<in> set (h @ [m]). parse (msg_created_at x) \<noteq> None")
  case False
  then show ?thesis by (auto simp: sort_history_def)
next
  case True
  then have "\<forall>x \<in> set h. the (parse (msg_created_at x)) \<le> the (parse (msg_created_at m))"
    using assms by fastforce
  then have "sort_key (\<lambda>x. the (parse (msg_created_at x))) (h @ [m]) =
             sort_key (\<lambda>x. the (parse (msg_created_at x))) h @ [m]"
    by (rule sort_key_snoc_last)
  with True show ?thesis by (simp add: sort_history_def)
qed

lemma finalize_existing_fields:
  "processed (finalize_existing env df c) = processed c"
  "chat_history (finalize_existing env df c) =
     map strip_customer_id (sort_history (strptime env) (chat_history c))"
  "chat_history c \<noteq> [] \<Longrightarrow>
     tail_id (finalize_existing env df c) =
       msg_tweet_id (last (sort_history (strptime env) (chat_history c)))"
  by (simp_all add: finalize_existing_def Let_def)



text \<open>
  The matching of lines 99 and 135 compares the root found on the table with the stored
  tail. A reply to the tail of a stored thread of two messages is therefore not appended
  to it: with the whole thread in the table the reply goes to a second record of the same
  root (the defect shown in the section on two records of one root), and with the reply
  alone in the table the walk finds no row for the parent and the reply is left out. The
  stored conversation stays processed in both runs.
\<close>

lemma reply_to_a_longer_thread:
  "convert_twitter_csv_to_json sample_env (Some thread_table) [settled_thread] =
     Inr ([settled_thread, orphan_followup], [settled_thread, orphan_followup]) \<and>
   convert_twitter_csv_to_json sample_env (Some [followup_tweet]) [settled_thread] =
     Inr ([settled_thread], [settled_thread]) \<and>
   in_response_to_tweet_id followup_tweet = tail_id settled_thread \<and>
   processed settled_thread"
  by code_simp

subsection \<open>A second run on the same table\<close>

text \<open>Matching looks only at the keys and the tails, and the second loop keeps both.\<close>

lemma find_matching_tails:
  "map (\<lambda>(k, c). (k, tail_id c)) d = map (\<lambda>(k, c). (k, tail_id c)) d' \<Longrightarrow>
     find_matching root_id d = find_matching root_id d'"
proof (induction d arbitrary: d')
  case Nil
  then show ?case by simp
next
  case (Cons p d)
  then obtain p' d'' where d': "d' = p' # d''" by (cases d') auto
  obtain k c k' c' where p: "p = (k, c)" "p' = (k', c')" by (cases p, cases p') auto
  from Cons.prems d' p have "k' = k" "tail_id c' = tail_id c"
    "map (\<lambda>(k, c). (k, tail_id c)) d = map (\<lambda>(k, c). (k, tail_id c)) d''"
    by simp_all
  with Cons.IH[of d''] d' p show ?case by simp
qed

lemma dict_modify_tails:
  "(\<And>c. tail_id (f c) = tail_id c) \<Longrightarrow>
     map (\<lambda>(k, c). (k, tail_id c)) (dict_modify k f d) = map (\<lambda>(k, c). (k, tail_id c)) d"
  by (induction d) auto

lemma attach_tails:
  assumes "attach tweet root_id (ex, seen, new) = (ex', seen', new')"
  shows "map (\<lambda>(k, c). (k, tail_id c)) ex' = map (\<lambda>(k, c). (k, tail_id c)) ex"
proof (cases tweet root_id ex seen new rule: attach_cases)
  case same
  with assms show ?thesis by simp
next
  case (stored k c)
  with assms have "ex' = dict_modify k (reopen (message_entry tweet)) ex" by simp
  then show ?thesis
    by (simp add: dict_modify_tails reopen_def append_message_def)
next
  case (fresh r c)
  with assms show ?thesis by simp
qed

text \<open>After the first loop every root without a stored match has a new conversation.\<close>

lemma dict_set_key_set: "fst ` set (dict_set k v d) = insert k (fst ` set d)"
  unfolding set_map[symmetric] dict_set_keys by auto

lemma identify_root_keys:
  "fst ` set new \<subseteq> fst ` set (identify_root df ex root_id new)"
  by (auto simp: identify_root_def dict_set_key_set split: option.splits list.splits)

lemma identify_root_covers:
  assumes "r \<noteq> []" "filter (\<lambda>x. tweet_id x = r) df \<noteq> []"
  shows "truthy (find_matching (Some r) ex) \<or> r \<in> fst ` set (identify_root df ex (Some r) new)"
  using assms
  by (auto simp: identify_root_def dict_set_key_set split: list.splits)

lemma identify_roots_covers:
  "identify_roots depth df ex seen rows new = Inr new' \<Longrightarrow>
     fst ` set new \<subseteq> fst ` set new' \<and>
     (\<forall>t \<in> set rows. tweet_id t \<notin> seen \<longrightarrow>
        (\<exists>x. find_conversation_root depth (tweet_id t) df = Inr x \<and>
             (\<forall>r. x = Some r \<longrightarrow>
                truthy (find_matching (Some r) ex) \<or> r \<in> fst ` set new')))"
proof (induction rows arbitrary: new)
  case Nil
  then show ?case by simp
next
  case (Cons tweet rest)
  show ?case
  proof (cases "tweet_id tweet \<in> seen")
    case True
    with Cons.prems have "identify_roots depth df ex seen rest new = Inr new'" by simp
    from Cons.IH[OF this] True show ?thesis by simp
  next
    case False
    with Cons.prems obtain root_id
      where root: "find_conversation_root depth (tweet_id tweet) df = Inr root_id"
        and rest: "identify_roots depth df ex seen rest (identify_root df ex root_id new) =
                     Inr new'"
      by (auto split: sum.splits)
    note ih = Cons.IH[OF rest]
    have grow: "fst ` set new \<subseteq> fst ` set new'"
      using ih identify_root_keys[of new df ex root_id] by blast
    have here: "truthy (find_matching (Some r) ex) \<or> r \<in> fst ` set new'"
      if "root_id = Some r" for r
    proof -
      from find_conversation_root_Some[of depth "tweet_id tweet" df r] root that
      have "r \<noteq> []" "filter (\<lambda>x. tweet_id x = r) df \<noteq> []" by auto
      from identify_root_covers[OF this, of ex new] that ih show ?thesis by blast
    qed
    from grow here root ih show ?thesis by auto
  qed
qed

text \<open>
  After the second loop every row that was not seen before and has a root is in a chat
  history.
\<close>

lemma attach_covers:
  assumes "attach tweet (Some r) (ex, seen, new) = (ex', seen', new')"
    and "r \<noteq> []"
    and "truthy (find_matching (Some r) ex) \<or> r \<in> fst ` set new"
  shows "tweet_id tweet \<in> set (dict_ids ex') \<union> set (dict_ids new')"
proof -
  have in_dict: "i \<in> set (dict_ids d)" if "dict_get d k = Some c" "i \<in> set (history_ids c)"
    for i k c and d :: "conversation dict"
    using that by (induction d) (auto split: if_splits)
  have new_branch: "tweet_id tweet \<in> set (dict_ids ex') \<union> set (dict_ids new')"
    if "attach_new tweet (Some r) (ex, seen, new) = (ex', seen', new')" "r \<in> fst ` set new"
  proof -
    from that(2) obtain c where c: "dict_get new r = Some c"
      using dict_get_None[of new r] by (cases "dict_get new r") auto
    show ?thesis
    proof (cases "tweet_id tweet \<in> set (history_ids c)")
      case True
      with that(1) c assms(2) have "new' = new" by (simp add: attach_new_def)
      with in_dict[OF c True] show ?thesis by simp
    next
      case False
      with that(1) c assms(2)
      have "new' = dict_modify r (append_message (message_entry tweet)) new"
        by (simp add: attach_new_def)
      then have "mset (dict_ids new') = add_mset (tweet_id tweet) (mset (dict_ids new))"
        using dict_modify_ids[OF c, of "append_message (message_entry tweet)" "tweet_id tweet"]
        by simp
      then show ?thesis by (auto dest: mset_add_set)
    qed
  qed
  show ?thesis
  proof (cases "find_matching (Some r) ex")
    case None
    with assms show ?thesis by (intro new_branch) (simp_all add: attach_def)
  next
    case (Some k)
    show ?thesis
    proof (cases "k = []")
      case True
      with Some assms show ?thesis by (intro new_branch) (simp_all add: attach_def)
    next
      case False
      from find_matching_Some[OF Some] obtain c0 :: conversation where "(k, c0) \<in> set ex"
        by blast
      then obtain c where c: "dict_get ex k = Some c"
        using dict_get_None[of ex k] by (cases "dict_get ex k") force+
      show ?thesis
      proof (cases "tweet_id tweet \<in> set (history_ids c)")
        case True
        with assms(1) Some False c have "ex' = ex" by (simp add: attach_def)
        with in_dict[OF c True] show ?thesis by simp
      next
        case notin: False
        with assms(1) Some False c
        have "ex' = dict_modify k (reopen (message_entry tweet)) ex" by (simp add: attach_def)
        then have "mset (dict_ids ex') = add_mset (tweet_id tweet) (mset (dict_ids ex))"
          using dict_modify_ids[OF c, of "reopen (message_entry tweet)" "tweet_id tweet"]
          by simp
        then show ?thesis by (auto dest: mset_add_set)
      qed
    qed
  qed
qed

lemma attach_grows:
  assumes "attach tweet root_id (ex, seen, new) = (ex', seen', new')"
  shows "set (dict_ids ex) \<subseteq> set (dict_ids ex')" "set (dict_ids new) \<subseteq> set (dict_ids new')"
    "seen' \<subseteq> seen \<union> set (dict_ids ex')" "seen \<subseteq> seen'" "fst ` set new' = fst ` set new"
proof -
  have "map fst (map (\<lambda>(k, c). (k, primary_tweet_id c)) new') =
        map fst (map (\<lambda>(k, c). (k, primary_tweet_id c)) new)"
    by (simp only: attach_effect(3)[OF assms])
  then have keys: "map fst new' = map fst new"
    by (simp add: comp_def case_prod_beta)
  show "fst ` set new' = fst ` set new" using keys by (metis set_map)
  from attach_effect(1)[OF assms]
  show "set (dict_ids ex) \<subseteq> set (dict_ids ex')" "set (dict_ids new) \<subseteq> set (dict_ids new')"
    "seen' \<subseteq> seen \<union> set (dict_ids ex')" "seen \<subseteq> seen'"
    by (auto dest: mset_add_set)
qed

lemma build_threads_covers:
  "build_threads depth df rows (ex, seen, new) = Inr (ex', seen', new') \<Longrightarrow>
   \<forall>t \<in> set rows. tweet_id t \<notin> seen \<longrightarrow>
     (\<exists>x. find_conversation_root depth (tweet_id t) df = Inr x \<and>
          (\<forall>r. x = Some r \<longrightarrow> truthy (find_matching (Some r) ex) \<or> r \<in> fst ` set new)) \<Longrightarrow>
     set (dict_ids ex) \<subseteq> set (dict_ids ex') \<and>
     set (dict_ids new) \<subseteq> set (dict_ids new') \<and>
     (\<forall>t \<in> set rows.
        tweet_id t \<in> seen \<or>
        find_conversation_root depth (tweet_id t) df = Inr None \<or>
        tweet_id t \<in> set (dict_ids ex') \<union> set (dict_ids new'))"
proof (induction rows arbitrary: ex seen new)
  case Nil
  then show ?case by simp
next
  case (Cons tweet rest)
  show ?case
  proof (cases "tweet_id tweet \<in> seen")
    case True
    with Cons.prems(1) have "build_threads depth df rest (ex, seen, new) = Inr (ex', seen', new')"
      by simp
    from Cons.IH[OF this] Cons.prems(2) True show ?thesis by simp
  next
    case False
    with Cons.prems(1) obtain root_id
      where root: "find_conversation_root depth (tweet_id tweet) df = Inr root_id"
        and rest: "build_threads depth df rest (attach tweet root_id (ex, seen, new)) =
                     Inr (ex', seen', new')"
      by (auto split: sum.splits)
    obtain ex1 seen1 new1 where st: "attach tweet root_id (ex, seen, new) = (ex1, seen1, new1)"
      by (cases "attach tweet root_id (ex, seen, new)") auto
    note grow = attach_grows[OF st]
    have same_match: "find_matching r ex1 = find_matching r ex" for r
      using attach_tails[OF st] by (rule find_matching_tails)
    have cover1: "\<forall>t \<in> set rest. tweet_id t \<notin> seen1 \<longrightarrow>
        (\<exists>x. find_conversation_root depth (tweet_id t) df = Inr x \<and>
             (\<forall>r. x = Some r \<longrightarrow>
                truthy (find_matching (Some r) ex1) \<or> r \<in> fst ` set new1))"
      using Cons.prems(2) grow(4,5) by (auto simp: same_match)
    note ih = Cons.IH[OF rest[unfolded st] cover1]
    have here: "find_conversation_root depth (tweet_id tweet) df = Inr None \<or>
                tweet_id tweet \<in> set (dict_ids ex1) \<union> set (dict_ids new1)"
    proof (cases root_id)
      case None
      with root show ?thesis by simp
    next
      case (Some r)
      from find_conversation_root_Some[of depth "tweet_id tweet" df r] root Some
      have ne: "r \<noteq> []" by simp
      from Cons.prems(2) False root Some
      have "truthy (find_matching (Some r) ex) \<or> r \<in> fst ` set new" by auto
      from attach_covers[OF st[unfolded Some] ne this] show ?thesis by simp
    qed
    have rest_rows: "tweet_id t \<in> seen \<or>
                     find_conversation_root depth (tweet_id t) df = Inr None \<or>
                     tweet_id t \<in> set (dict_ids ex') \<union> set (dict_ids new')"
      if "t \<in> set rest" for t
    proof -
      from ih that have "tweet_id t \<in> seen1 \<or>
                         find_conversation_root depth (tweet_id t) df = Inr None \<or>
                         tweet_id t \<in> set (dict_ids ex') \<union> set (dict_ids new')"
        by blast
      moreover have "tweet_id t \<in> seen \<or> tweet_id t \<in> set (dict_ids ex')"
        if "tweet_id t \<in> seen1"
        using that grow(3) ih by auto
      ultimately show ?thesis by blast
    qed
    from ih grow here rest_rows show ?thesis by auto
  qed
qed

text \<open>Rows that are seen or have no root leave both loops without effect.\<close>

lemma identify_roots_nothing:
  "\<forall>t \<in> set rows. tweet_id t \<in> seen \<or>
       find_conversation_root depth (tweet_id t) df = Inr None \<Longrightarrow>
     identify_roots depth df ex seen rows new = Inr new"
  by (induction rows) (auto simp: identify_root_def)

lemma attach_None [simp]: "attach tweet None st = st"
  by (cases st) (simp add: attach_def attach_new_def)

lemma build_threads_nothing:
  "\<forall>t \<in> set rows. tweet_id t \<in> seen \<or>
       find_conversation_root depth (tweet_id t) df = Inr None \<Longrightarrow>
     build_threads depth df rows (ex, seen, new) = Inr (ex, seen, new)"
  by (induction rows) auto

text \<open>Finalising a finalised conversation changes nothing.\<close>

lemma strip_created_at [simp]: "msg_created_at (strip_customer_id m) = msg_created_at m"
  by (simp add: strip_customer_id_def)

lemma strip_response_type [simp]: "msg_response_type (strip_customer_id m) = msg_response_type m"
  by (simp add: strip_customer_id_def)

lemma strip_strip [simp]: "strip_customer_id (strip_customer_id m) = strip_customer_id m"
  by (simp add: strip_customer_id_def)

lemma collect_customer_ids_stripped [simp]:
  "collect_customer_ids (map strip_customer_id h) = []"
  by (induction h) (auto simp: strip_customer_id_def split: response_type.splits)

lemma collect_company_ids_stripped [simp]:
  "collect_company_ids df (map strip_customer_id h) = collect_company_ids df h"
  by (induction h) (auto split: list.splits)

lemma sorted_sort_history:
  "\<forall>m \<in> set h. parse (msg_created_at m) \<noteq> None \<Longrightarrow>
     sorted (map (\<lambda>m. the (parse (msg_created_at m))) (sort_history parse h))"
  by (simp add: sort_history_def)

lemma sort_history_stripped [simp]:
  "sort_history parse (map strip_customer_id (sort_history parse h)) =
     map strip_customer_id (sort_history parse h)"
proof (cases "\<forall>m \<in> set h. parse (msg_created_at m) \<noteq> None")
  case True
  let ?f = "\<lambda>m. the (parse (msg_created_at m))"
  have "sorted (map ?f (map strip_customer_id (sort_history parse h)))"
    using sorted_sort_history[OF True] by (simp add: comp_def)
  then have "sort_key ?f (map strip_customer_id (sort_history parse h)) =
             map strip_customer_id (sort_history parse h)"
    by (rule sort_key_id_if_sorted)
  moreover have "\<forall>m \<in> set (map strip_customer_id (sort_history parse h)).
                   parse (msg_created_at m) \<noteq> None"
    using True by (simp add: sort_history_def)
  ultimately show ?thesis
    by (subst sort_history_def) (simp only: if_cancel)
next
  case False
  then have a: "sort_history parse h = h" by (auto simp: sort_history_def)
  from False have b: "sort_history parse (map strip_customer_id h) = map strip_customer_id h"
    by (auto simp: sort_history_def)
  show ?thesis unfolding a b ..
qed

lemma last_stripped:
  "h \<noteq> [] \<Longrightarrow> msg_tweet_id (last (map strip_customer_id h)) = msg_tweet_id (last h)"
  by (simp add: last_map)

lemma finalize_existing_idem:
  "finalize_existing env df (finalize_existing env df c) = finalize_existing env df c"
  "finalize_existing env df (finalize_new env df c) = finalize_new env df c"
  by (simp_all add: finalize_existing_def finalize_new_def Let_def last_stripped)

lemma dict_ids_keyed: "dict_ids (map (\<lambda>c. (primary_tweet_id c, c)) S) = store_ids S"
  by (induction S) simp_all

lemma dict_values_keyed: "dict_values (map (\<lambda>c. (primary_tweet_id c, c)) S) = S"
  by (simp add: dict_values_def comp_def)

text \<open>
  When neither the store before a run nor the store it writes has two records of one root,
  a second run on the same table writes the same store again.
\<close>

lemma second_run_same_store:
  assumes run: "ingest env rows S0 = Inr S1"
    and d0: "distinct (map primary_tweet_id S0)"
    and d1: "distinct (map primary_tweet_id S1)"
  shows "ingest env rows S1 = Inr S1"
proof -
  let ?df = "clean_df rows"
  let ?depth = "recursion_limit env"
  let ?L0 = "map (\<lambda>c. (primary_tweet_id c, c)) S0"
  let ?L1 = "map (\<lambda>c. (primary_tweet_id c, c)) S1"
  from run obtain new ex' seen' new' where
    l1: "identify_roots ?depth ?df (load_existing_convo S0) (load_existing_tweet_ids S0) ?df [] =
           Inr new"
    and l2: "build_threads ?depth ?df ?df
               (load_existing_convo S0, load_existing_tweet_ids S0, new) = Inr (ex', seen', new')"
    and ret: "S1 = map (finalize_existing env ?df) (dict_values ex') @
                   map (finalize_new env ?df) (dict_values new')"
    by (rule ingest_Inr)
  have load0: "load_existing_convo S0 = ?L0" using d0 by (rule load_distinct)
  have seen0: "load_existing_tweet_ids S0 = set (dict_ids ?L0)"
    by (simp add: load_existing_tweet_ids_def dict_ids_keyed)
  have cover: "\<forall>t \<in> set ?df. tweet_id t \<notin> set (dict_ids ?L0) \<longrightarrow>
      (\<exists>x. find_conversation_root ?depth (tweet_id t) ?df = Inr x \<and>
           (\<forall>r. x = Some r \<longrightarrow>
              truthy (find_matching (Some r) ?L0) \<or> r \<in> fst ` set new))"
    using identify_roots_covers[OF l1[unfolded load0 seen0]] by blast
  note attached = build_threads_covers[OF l2[unfolded load0 seen0] cover]
  have "mset (store_ids S1) = mset (dict_ids ex') + mset (dict_ids new')"
    unfolding ret by (simp add: store_ids_finalize store_ids_dict_values)
  then have ids1: "set (store_ids S1) = set (dict_ids ex') \<union> set (dict_ids new')"
    by (metis mset_append set_append mset_eq_setD)
  have idle: "\<forall>t \<in> set ?df. tweet_id t \<in> set (store_ids S1) \<or>
                   find_conversation_root ?depth (tweet_id t) ?df = Inr None"
  proof
    fix t assume "t \<in> set ?df"
    with attached have "tweet_id t \<in> set (dict_ids ?L0) \<or>
        find_conversation_root ?depth (tweet_id t) ?df = Inr None \<or>
        tweet_id t \<in> set (dict_ids ex') \<union> set (dict_ids new')"
      by blast
    moreover from attached have "set (dict_ids ?L0) \<subseteq> set (dict_ids ex')" by blast
    ultimately show "tweet_id t \<in> set (store_ids S1) \<or>
                     find_conversation_root ?depth (tweet_id t) ?df = Inr None"
      unfolding ids1 by blast
  qed
  have load1: "load_existing_convo S1 = ?L1" using d1 by (rule load_distinct)
  have seen1: "load_existing_tweet_ids S1 = set (store_ids S1)"
    by (simp add: load_existing_tweet_ids_def)
  have loop1: "identify_roots ?depth ?df ?L1 (set (store_ids S1)) ?df [] = Inr []"
    by (rule identify_roots_nothing[OF idle])
  have loop2: "build_threads ?depth ?df ?df (?L1, set (store_ids S1), []) =
                 Inr (?L1, set (store_ids S1), [])"
    by (rule build_threads_nothing[OF idle])
  have "map (finalize_existing env ?df) S1 = S1"
    unfolding ret by (simp add: finalize_existing_idem)
  moreover have "dict_values ([]::conversation dict) = []"
    by (simp add: dict_values_def)
  ultimately show ?thesis
    by (simp add: ingest_def Let_def load1 seen1 loop1 loop2 dict_values_keyed)
qed

text \<open>A run on the empty store writes no two records of one root.\<close>

lemma identify_roots_distinct:
  "identify_roots depth df ex seen rows new = Inr new' \<Longrightarrow> distinct (map fst new) \<Longrightarrow>
     distinct (map fst new')"
proof (induction rows arbitrary: new)
  case Nil
  then show ?case by simp
next
  case (Cons tweet rest)
  show ?case
  proof (cases "tweet_id tweet \<in> seen")
    case True
    with Cons show ?thesis by simp
  next
    case False
    with Cons.prems(1) obtain root_id
      where rest: "identify_roots depth df ex seen rest (identify_root df ex root_id new) =
                     Inr new'"
      by (auto split: sum.splits)
    have "distinct (map fst (identify_root df ex root_id new))"
      using Cons.prems(2)
      by (auto simp: identify_root_def dict_set_distinct split: option.splits list.splits)
    with rest show ?thesis by (rule Cons.IH)
  qed
qed

lemma fresh_run_roots_distinct:
  assumes "ingest env rows [] = Inr S1"
  shows "distinct (map primary_tweet_id S1)"
proof -
  let ?df = "clean_df rows"
  from assms obtain new ex' seen' new' where
    l1: "identify_roots (recursion_limit env) ?df (load_existing_convo [])
           (load_existing_tweet_ids []) ?df [] = Inr new"
    and l2: "build_threads (recursion_limit env) ?df ?df
               (load_existing_convo [], load_existing_tweet_ids [], new) = Inr (ex', seen', new')"
    and ret: "S1 = map (finalize_existing env ?df) (dict_values ex') @
                   map (finalize_new env ?df) (dict_values new')"
    by (rule ingest_Inr)
  note keys = build_threads_keys[OF l2]
  from keys have "ex' = []" by (simp add: load_existing_convo_def)
  have ro: "roots_only ?df new"
    using identify_roots_roots_only[OF l1 roots_only_Nil] .
  have "map snd (map (\<lambda>(k, c). (k, primary_tweet_id c)) new') =
        map snd (map (\<lambda>(k, c). (k, primary_tweet_id c)) new)"
    using keys by simp
  then have "map primary_tweet_id (dict_values new') = map primary_tweet_id (dict_values new)"
    by (simp add: dict_values_def comp_def case_prod_beta)
  also have "\<dots> = map fst new"
    using ro by (induction new) (auto simp: roots_only_def dict_values_def)
  finally have "map primary_tweet_id (dict_values new') = map fst new" .
  moreover have "distinct (map fst new)"
    using identify_roots_distinct[OF l1] by simp
  ultimately show ?thesis
    unfolding ret using \<open>ex' = []\<close> by (simp add: dict_values_def comp_def)
qed

text \<open>Started on the empty store, a second run on the same table changes nothing.\<close>

lemma fresh_store_second_run:
  assumes "convert_twitter_csv_to_json env (Some rows) [] = Inr (ret, S1)"
  shows "convert_twitter_csv_to_json env (Some rows) S1 = Inr (S1, S1)"
proof -
  from assms have run: "ingest env rows [] = Inr S1" by (simp add: convert_Some)
  from run have "ingest env rows S1 = Inr S1"
    by (rule second_run_same_store) (simp_all add: fresh_run_roots_distinct[OF run])
  then show ?thesis by (simp add: convert_Some)
qed

section \<open>Properties of the customer patterns\<close>

subsection \<open>The counter\<close>

text \<open>The keys of a counter: the values of the list in the order of their first occurrence.\<close>

lemma counter_add_keys:
  "distinct ks \<Longrightarrow>
   counter_add x (map (\<lambda>k. (k, c k)) ks) =
     (if x \<in> set ks then map (\<lambda>k. (k, if k = x then Suc (c k) else c k)) ks
      else map (\<lambda>k. (k, c k)) ks @ [(x, 1)])"
  by (induction ks) auto

lemma counter_snoc: "counter (xs @ [x]) = counter_add x (counter xs)"
  by (simp add: counter_def)

lemma counter_items:
  "counter xs = map (\<lambda>k. (k, count_list xs k)) (rev (remdups (rev xs)))"
proof (induction xs rule: rev_induct)
  case Nil
  show ?case by (simp add: counter_def)
next
  case (snoc x xs)
  let ?ks = "rev (remdups (rev xs))"
  have d: "distinct ?ks" by simp
  have s: "set ?ks = set xs" by simp
  show ?case
  proof (cases "x \<in> set xs")
    case True
    then have "counter (xs @ [x]) =
                 map (\<lambda>k. (k, if k = x then Suc (count_list xs k) else count_list xs k)) ?ks"
      by (simp add: counter_snoc snoc.IH counter_add_keys[OF d])
    with True show ?thesis by simp
  next
    case False
    then have "counter (xs @ [x]) = map (\<lambda>k. (k, count_list xs k)) ?ks @ [(x, 1)]"
      by (simp add: counter_snoc snoc.IH counter_add_keys[OF d])
    moreover have "map (\<lambda>k. (k, count_list xs k)) ?ks =
                   map (\<lambda>k. (k, count_list (xs @ [x]) k)) ?ks"
      using False by (intro map_cong) auto
    ultimately show ?thesis using False by (simp add: count_list_0_iff)
  qed
qed

subsection \<open>The first of the largest items\<close>

lemma max_by_count_first:
  "fst (max_by_count (k0, c k0) (map (\<lambda>k. (k, c k)) ks)) =
     hd (filter (\<lambda>k. \<forall>j \<in> set (k0 # ks). c j \<le> c k) (k0 # ks))"
proof (induction ks arbitrary: k0)
  case Nil
  show ?case by simp
next
  case (Cons k ks)
  show ?case
  proof (cases "c k0 < c k")
    case True
    then have "fst (max_by_count (k0, c k0) (map (\<lambda>k. (k, c k)) (k # ks))) =
                 hd (filter (\<lambda>i. \<forall>j \<in> set (k # ks). c j \<le> c i) (k # ks))"
      by (simp add: Cons.IH)
    also have "filter (\<lambda>i. \<forall>j \<in> set (k # ks). c j \<le> c i) (k # ks) =
               filter (\<lambda>i. \<forall>j \<in> set (k0 # k # ks). c j \<le> c i) (k # ks)"
      using True by (intro filter_cong) auto
    also have "\<dots> = filter (\<lambda>i. \<forall>j \<in> set (k0 # k # ks). c j \<le> c i) (k0 # k # ks)"
      using True by auto
    finally show ?thesis .
  next
    case False
    then have le: "c k \<le> c k0" by simp
    then have "fst (max_by_count (k0, c k0) (map (\<lambda>k. (k, c k)) (k # ks))) =
                 hd (filter (\<lambda>i. \<forall>j \<in> set (k0 # ks). c j \<le> c i) (k0 # ks))"
      by (simp add: Cons.IH)
    also have "\<dots> = hd (filter (\<lambda>i. \<forall>j \<in> set (k0 # k # ks). c j \<le> c i) (k0 # k # ks))"
    proof (cases "\<forall>j \<in> set ks. c j \<le> c k0")
      case True
      with le show ?thesis by simp
    next
      case False
      then obtain j where j: "j \<in> set ks" "c k0 < c j" by force
      with le have nk: "\<not> (\<forall>j \<in> set (k0 # k # ks). c j \<le> c k)" by force
      have "filter (\<lambda>i. \<forall>j \<in> set (k0 # ks). c j \<le> c i) ks =
            filter (\<lambda>i. \<forall>j \<in> set (k0 # k # ks). c j \<le> c i) ks"
        using le by (intro filter_cong) auto
      with j nk show ?thesis by auto
    qed
    finally show ?thesis .
  qed
qed

lemma first_occurrence_filter:
  "filter P (rev (remdups (rev xs))) = rev (remdups (rev (filter P xs)))"
  by (simp add: rev_filter remdups_filter)

lemma last_remdups: "xs \<noteq> [] \<Longrightarrow> last (remdups xs) = last xs"
  by (induction xs) (auto simp: last_in_set)

lemma first_occurrence_hd: "hd (rev (remdups (rev xs))) = hd xs"
  by (cases "xs = []") (simp_all add: hd_rev last_remdups last_rev)

text \<open>\<^verbatim>\<open>Counter(xs).most_common(1)[0][0]\<close> is the most frequent value, the first one on a tie.\<close>

lemma most_common_or_spec: "most_common_or dflt xs = most_frequent_first dflt xs"
proof (cases "xs = []")
  case True
  then show ?thesis by (simp add: most_common_or_def most_frequent_first_def counter_def)
next
  case False
  let ?ks = "rev (remdups (rev xs))"
  let ?P = "\<lambda>k. \<forall>j \<in> set xs. count_list xs j \<le> count_list xs k"
  from False have "?ks \<noteq> []" by simp
  then obtain k0 ks where ks: "?ks = k0 # ks" by (cases ?ks) auto
  have set_ks: "set (k0 # ks) = set xs" using ks by (metis set_remdups set_rev)
  have "most_common_or dflt xs =
          fst (max_by_count (k0, count_list xs k0) (map (\<lambda>k. (k, count_list xs k)) ks))"
    by (simp add: most_common_or_def counter_items ks)
  also have "\<dots> = hd (filter ?P (k0 # ks))"
    unfolding max_by_count_first set_ks ..
  also have "\<dots> = hd (filter ?P xs)"
    using first_occurrence_filter[of ?P xs] first_occurrence_hd[of "filter ?P xs"]
    by (simp add: ks[symmetric])
  finally have eq: "most_common_or dflt xs = hd (filter ?P xs)" .
  have "\<exists>x \<in> set xs. ?P x"
  proof -
    let ?C = "count_list xs ` set xs"
    from False have fin: "finite ?C" and ne: "?C \<noteq> {}" by simp_all
    from Max_in[OF fin ne] obtain m where m: "m \<in> set xs" "count_list xs m = Max ?C"
      by auto
    have "count_list xs y \<le> count_list xs m" if "y \<in> set xs" for y
      using Max_ge[OF fin, of "count_list xs y"] that m by simp
    with m show ?thesis by blast
  qed
  then have "filter ?P xs \<noteq> []" by (simp add: filter_empty_conv)
  then show ?thesis
    unfolding eq most_frequent_first_def by (cases "filter ?P xs") simp_all
qed

subsection \<open>The groups\<close>

lemma dict_get_append:
  "dict_get (dict_append k v d) k' =
     (if k' = k then Some ((case dict_get d k of None \<Rightarrow> [] | Some vs \<Rightarrow> vs) @ [v])
      else dict_get d k')"
  by (induction d) auto

lemma dict_get_group_step:
  "dict_get (group_step d conv) cid =
     (if cid \<noteq> [] \<and> customer_id conv = Some cid
      then Some ((case dict_get d cid of None \<Rightarrow> [] | Some vs \<Rightarrow> vs) @ [conv])
      else dict_get d cid)"
  by (auto simp: group_step_def dict_get_append split: option.splits)

lemma dict_get_groups:
  "dict_get (foldl group_step d convs) cid =
     (if cid \<noteq> [] \<and> (\<exists>c \<in> set convs. customer_id c = Some cid)
      then Some ((case dict_get d cid of None \<Rightarrow> [] | Some vs \<Rightarrow> vs) @
                 filter (\<lambda>c. customer_id c = Some cid) convs)
      else dict_get d cid)"
proof (induction convs arbitrary: d)
  case Nil
  show ?case by simp
next
  case (Cons conv convs)
  show ?case
    unfolding foldl_Cons Cons.IH dict_get_group_step by auto
qed

lemma group_by_customer_fold: "group_by_customer convs = foldl group_step [] convs"
  unfolding group_by_customer_def group_step_def ..

lemma dict_get_map_values:
  "dict_get (map (\<lambda>(k, v). (k, f v)) d) k = map_option f (dict_get d k)"
  by (induction d) auto

subsection \<open>The patterns\<close>

text \<open>
  Claim C6. The pattern that \<^verbatim>\<open>calculate_customer_patterns\<close> stores for a customer id: an
  entry exists exactly for the non-empty ids that some conversation of the list carries,
  and it holds the most frequent sentiment and the most frequent category among the
  conversations of that customer, in the order of the list, the first-met value winning a
  tie, with \<^verbatim>\<open>Neutral\<close> and \<^verbatim>\<open>Technical Issue (Simple / Minor)\<close> standing for a missing tag.
\<close>

theorem calculate_customer_patterns_most_frequent:
  "dict_get (calculate_customer_patterns convs) cid =
     (if cid \<noteq> [] \<and> (\<exists>c \<in> set convs. customer_id c = Some cid)
      then Some (most_frequent_first ''Neutral''
                   (map (\<lambda>c. case sentiment c of None \<Rightarrow> ''Neutral'' | Some s \<Rightarrow> s)
                      (filter (\<lambda>c. customer_id c = Some cid) convs)),
                 most_frequent_first ''Technical Issue (Simple / Minor)''
                   (map (\<lambda>c. case nature_of_support c of
                                None \<Rightarrow> ''Technical Issue (Simple / Minor)'' | Some s \<Rightarrow> s)
                      (filter (\<lambda>c. customer_id c = Some cid) convs)))
      else None)"
proof -
  have s: "sentiment_or_default = (\<lambda>c. case sentiment c of None \<Rightarrow> ''Neutral'' | Some s \<Rightarrow> s)"
    by (auto simp: fun_eq_iff sentiment_or_default_def default_sentiment_def split: option.splits)
  have n: "support_or_default =
             (\<lambda>c. case nature_of_support c of
                     None \<Rightarrow> ''Technical Issue (Simple / Minor)'' | Some s \<Rightarrow> s)"
    by (auto simp: fun_eq_iff support_or_default_def default_category_def split: option.splits)
  show ?thesis
    unfolding calculate_customer_patterns_def dict_get_map_values group_by_customer_fold
      dict_get_groups most_common_or_spec s n default_sentiment_def default_category_def
    by simp
qed

theorem calculate_customer_patterns_most_frequent_witness:
  "dict_get (calculate_customer_patterns three_tagged) ''115712'' =
     Some (''Negative'', ''Technical Issue (Simple / Minor)'') \<and>
   dict_get (calculate_customer_patterns three_tagged) [] = None \<and>
   dict_get (calculate_customer_patterns (drop 2 three_tagged)) ''115712'' =
     Some (''Negative'', ''Technical Issue (Simple / Minor)'') \<and>
   dict_get (calculate_customer_patterns (rev (drop 2 three_tagged))) ''115712'' =
     Some (''Positive'', ''Technical Issue (Simple / Minor)'')"
  using calculate_customer_patterns_most_frequent[of three_tagged "''115712''"]
        calculate_customer_patterns_most_frequent[of three_tagged "[]"]
        calculate_customer_patterns_most_frequent[of "drop 2 three_tagged" "''115712''"]
        calculate_customer_patterns_most_frequent[of "rev (drop 2 three_tagged)" "''115712''"]
  by (simp add: three_tagged_def tagged_with_def fresh_conversation_def most_frequent_first_def)

section \<open>Properties of the enrichment stage\<close>

subsection \<open>What tagging keeps and what it writes\<close>

lemma tag_conversation_keeps:
  "primary_tweet_id (tag_conversation llm c) = primary_tweet_id c"
  "chat_history (tag_conversation llm c) = chat_history c"
  "customer_id (tag_conversation llm c) = customer_id c"
  "processed (tag_conversation llm c) = processed c"
  by (simp_all add: tag_conversation_def Let_def)

lemma add_patterns_keeps:
  "primary_tweet_id (add_patterns p c) = primary_tweet_id c"
  "chat_history (add_patterns p c) = chat_history c"
  "customer_id (add_patterns p c) = customer_id c"
  "nature_of_support (add_patterns p c) = nature_of_support c"
  "sentiment (add_patterns p c) = sentiment c"
  "resolved (add_patterns p c) = resolved c"
  "resolution_status (add_patterns p c) = resolution_status c"
  by (simp_all add: add_patterns_def split: option.splits)

text \<open>The returned list: every unprocessed conversation, tagged, in the order of the store.\<close>

lemma tag_conversations_returned:
  "fst (tag_conversations llm raw tagged) =
     map (\<lambda>c. (add_patterns
                  (calculate_customer_patterns
                     (map (tag_conversation llm) (filter (\<lambda>c. \<not> processed c) raw)))
                  (tag_conversation llm c))\<lparr> processed := False \<rparr>)
       (filter (\<lambda>c. \<not> processed c) raw)"
  by (simp add: tag_conversations_def Let_def)

lemma classify_fallback:
  "\<not> api_key llm \<or> (\<exists>e. classify_call llm (customer_context p h) = Inl e)
     \<Longrightarrow> classify_support_nature_llm llm p h = default_category"
  by (auto simp: classify_support_nature_llm_def)

lemma sentiment_fallback:
  "\<not> api_key llm \<or> (\<exists>e. sentiment_call llm (customer_context p h) = Inl e)
     \<Longrightarrow> analyze_sentiment_llm llm p h = default_sentiment"
  by (auto simp: analyze_sentiment_llm_def)

lemma resolution_fallback:
  "resolution_call llm (resolution_context h) = Inl e \<Longrightarrow>
     determine_resolution_status_llm llm h = (if h = [] then Some ''waiting_for_company'' else None)"
  by (simp add: determine_resolution_status_llm_def)

subsection \<open>Defaults when the collaborator fails\<close>

text \<open>
  Claim C7. \<^verbatim>\<open>tag_conversations\<close> returns one record for every unprocessed conversation of the
  raw store, in order; the function has no error result, since every collaborator call
  stands in a \<^verbatim>\<open>try\<close> whose handler returns. In the record of an unprocessed conversation, a
  category call that fails (the key is missing, or the call raises) leaves the category
  \<^verbatim>\<open>Technical Issue (Simple / Minor)\<close>, a sentiment call that fails leaves the sentiment
  \<^verbatim>\<open>Neutral\<close>, and a resolution call that raises leaves \<open>resolved = False\<close> and no resolution
  label (\<^verbatim>\<open>None\<close>; on an empty history the collaborator is not asked and the label is
  \<^verbatim>\<open>waiting_for_company\<close>).
\<close>

theorem tag_conversations_defaults_on_failure:
  assumes c: "c \<in> set raw" "\<not> processed c"
  shows "map primary_tweet_id (fst (tag_conversations llm raw tagged)) =
           map primary_tweet_id (filter (\<lambda>c. \<not> processed c) raw) \<and>
         (\<exists>c' \<in> set (fst (tag_conversations llm raw tagged)).
            primary_tweet_id c' = primary_tweet_id c \<and>
            chat_history c' = chat_history c \<and>
            (\<not> api_key llm \<or>
             (\<exists>e. classify_call llm (customer_context (primary_tweet c) (chat_history c)) = Inl e)
               \<longrightarrow> nature_of_support c' = Some ''Technical Issue (Simple / Minor)'') \<and>
            (\<not> api_key llm \<or>
             (\<exists>e. sentiment_call llm (customer_context (primary_tweet c) (chat_history c)) = Inl e)
               \<longrightarrow> sentiment c' = Some ''Neutral'') \<and>
            ((\<exists>e. resolution_call llm (resolution_context (chat_history c)) = Inl e)
               \<longrightarrow> resolved c' = Some False \<and>
                   resolution_status c' =
                     Some (if chat_history c = [] then Some ''waiting_for_company'' else None)))"
proof -
  let ?ps = "calculate_customer_patterns
               (map (tag_conversation llm) (filter (\<lambda>c. \<not> processed c) raw))"
  let ?c' = "(add_patterns ?ps (tag_conversation llm c))\<lparr> processed := False \<rparr>"
  have ids: "map primary_tweet_id (fst (tag_conversations llm raw tagged)) =
               map primary_tweet_id (filter (\<lambda>c. \<not> processed c) raw)"
    by (simp add: tag_conversations_returned comp_def tag_conversation_keeps add_patterns_keeps)
  have mem: "?c' \<in> set (fst (tag_conversations llm raw tagged))"
    unfolding tag_conversations_returned set_map using c by (intro imageI) simp
  have keep: "primary_tweet_id ?c' = primary_tweet_id c" "chat_history ?c' = chat_history c"
    by (simp_all add: tag_conversation_keeps add_patterns_keeps)
  have cls: "nature_of_support ?c' = Some ''Technical Issue (Simple / Minor)''"
    if "\<not> api_key llm \<or>
        (\<exists>e. classify_call llm (customer_context (primary_tweet c) (chat_history c)) = Inl e)"
    using classify_fallback[OF that]
    by (simp add: add_patterns_keeps tag_conversation_def Let_def default_category_def)
  have sen: "sentiment ?c' = Some ''Neutral''"
    if "\<not> api_key llm \<or>
        (\<exists>e. sentiment_call llm (customer_context (primary_tweet c) (chat_history c)) = Inl e)"
    using sentiment_fallback[OF that]
    by (simp add: add_patterns_keeps tag_conversation_def Let_def default_sentiment_def)
  have res: "resolved ?c' = Some False \<and>
             resolution_status ?c' =
               Some (if chat_history c = [] then Some ''waiting_for_company'' else None)"
    if "\<exists>e. resolution_call llm (resolution_context (chat_history c)) = Inl e"
  proof -
    from that obtain e where "resolution_call llm (resolution_context (chat_history c)) = Inl e"
      by blast
    from resolution_fallback[OF this] show ?thesis
      by (simp add: add_patterns_keeps tag_conversation_def Let_def)
  qed
  from mem keep cls sen res have
    "\<exists>c' \<in> set (fst (tag_conversations llm raw tagged)).
       primary_tweet_id c' = primary_tweet_id c \<and>
       chat_history c' = chat_history c \<and>
       (\<not> api_key llm \<or>
        (\<exists>e. classify_call llm (customer_context (primary_tweet c) (chat_history c)) = Inl e)
          \<longrightarrow> nature_of_support c' = Some ''Technical Issue (Simple / Minor)'') \<and>
       (\<not> api_key llm \<or>
        (\<exists>e. sentiment_call llm (customer_context (primary_tweet c) (chat_history c)) = Inl e)
          \<longrightarrow> sentiment c' = Some ''Neutral'') \<and>
       ((\<exists>e. resolution_call llm (resolution_context (chat_history c)) = Inl e)
          \<longrightarrow> resolved c' = Some False \<and>
              resolution_status c' =
                Some (if chat_history c = [] then Some ''waiting_for_company'' else None))"
    by (intro bexI[of _ ?c']) blast+
  with ids show ?thesis by (rule conjI)
qed

theorem tag_conversations_defaults_on_failure_witness:
  "map primary_tweet_id (fst (tag_conversations failing_collaborator [fresh_conversation] [])) =
     [''1''] \<and>
   map chat_history (fst (tag_conversations failing_collaborator [fresh_conversation] [])) =
     [[asked]] \<and>
   map nature_of_support (fst (tag_conversations failing_collaborator [fresh_conversation] [])) =
     [Some ''Technical Issue (Simple / Minor)''] \<and>
   map sentiment (fst (tag_conversations failing_collaborator [fresh_conversation] [])) =
     [Some ''Neutral''] \<and>
   map resolved (fst (tag_conversations failing_collaborator [fresh_conversation] [])) =
     [Some False] \<and>
   map resolution_status (fst (tag_conversations failing_collaborator [fresh_conversation] [])) =
     [Some None]"
proof -
  let ?out = "fst (tag_conversations failing_collaborator [fresh_conversation] [])"
  have c: "fresh_conversation \<in> set [fresh_conversation]" "\<not> processed fresh_conversation"
    by (simp_all add: fresh_conversation_def)
  note inst = tag_conversations_defaults_on_failure[OF c, of failing_collaborator "[]"]
  have fails:
    "\<exists>e. classify_call failing_collaborator
            (customer_context (primary_tweet fresh_conversation)
               (chat_history fresh_conversation)) = Inl e"
    "\<exists>e. sentiment_call failing_collaborator
            (customer_context (primary_tweet fresh_conversation)
               (chat_history fresh_conversation)) = Inl e"
    "\<exists>e. resolution_call failing_collaborator
            (resolution_context (chat_history fresh_conversation)) = Inl e"
    by (simp_all add: failing_collaborator_def)
  have hist: "chat_history fresh_conversation = [asked]" "primary_tweet_id fresh_conversation = ''1''"
    by (simp_all add: fresh_conversation_def)
  from inst have "map primary_tweet_id ?out = [''1'']"
    by (simp add: fresh_conversation_def)
  then obtain c' where out: "?out = [c']" by auto
  with inst fails hist have
    "chat_history c' = [asked]"
    "nature_of_support c' = Some ''Technical Issue (Simple / Minor)''"
    "sentiment c' = Some ''Neutral''"
    "resolved c' = Some False"
    "resolution_status c' = Some None"
    by auto
  with out \<open>map primary_tweet_id ?out = [''1'']\<close> show ?thesis by simp
qed

subsection \<open>The gap in the resolution status\<close>

text \<open>
  Claim C10. When the resolution call raises on a non-empty history, whether or not a key
  is configured, \<^verbatim>\<open>determine_resolution_status_llm\<close> returns \<^verbatim>\<open>None\<close>, not one of the three
  labels. \<^verbatim>\<open>tag_conversations\<close> then returns the conversation with \<open>resolution_status\<close> set to
  \<^verbatim>\<open>None\<close> and \<open>resolved\<close> set to \<open>False\<close>, and the feature that the recommendation stage
  filters on is not \<^verbatim>\<open>waiting_for_company\<close> for it. On an empty history the function
  returns \<^verbatim>\<open>waiting_for_company\<close> without asking the collaborator.
\<close>

theorem resolution_failure_leaves_none:
  "determine_resolution_status_llm llm [] = Some ''waiting_for_company'' \<and>
   (\<forall>k. chat \<noteq> [] \<and> resolution_call llm (resolution_context chat) = Inl e \<longrightarrow>
      determine_resolution_status_llm (llm\<lparr> api_key := k \<rparr>) chat = None) \<and>
   (\<forall>c' \<in> set (fst (tag_conversations llm raw tagged)).
      chat_history c' \<noteq> [] \<and>
      resolution_call llm (resolution_context (chat_history c')) = Inl e \<longrightarrow>
        resolution_status c' = Some None \<and> resolved c' = Some False \<and>
        f_resolution_status (extract_features c') \<noteq> Some ''waiting_for_company'')"
proof (intro conjI allI ballI impI)
  show "determine_resolution_status_llm llm [] = Some ''waiting_for_company''"
    by (simp add: determine_resolution_status_llm_def)
next
  fix k
  assume "chat \<noteq> [] \<and> resolution_call llm (resolution_context chat) = Inl e"
  then show "determine_resolution_status_llm (llm\<lparr> api_key := k \<rparr>) chat = None"
    by (simp add: determine_resolution_status_llm_def)
next
  fix c'
  assume mem: "c' \<in> set (fst (tag_conversations llm raw tagged))"
    and fail: "chat_history c' \<noteq> [] \<and>
               resolution_call llm (resolution_context (chat_history c')) = Inl e"
  from mem obtain c ps where c': "c' = (add_patterns ps (tag_conversation llm c))\<lparr> processed := False \<rparr>"
    unfolding tag_conversations_returned by auto
  then have hist: "chat_history c' = chat_history c"
    by (simp add: tag_conversation_keeps add_patterns_keeps)
  with fail have none: "determine_resolution_status_llm llm (chat_history c) = None"
    by (simp add: determine_resolution_status_llm_def)
  then have st: "resolution_status c' = Some None" and rs: "resolved c' = Some False"
    unfolding c' by (simp_all add: add_patterns_keeps tag_conversation_def Let_def)
  from st have "f_resolution_status (extract_features c') = None"
    by (simp add: extract_features_def)
  with st rs show "resolution_status c' = Some None" "resolved c' = Some False"
    "f_resolution_status (extract_features c') \<noteq> Some ''waiting_for_company''"
    by simp_all
qed

theorem resolution_failure_leaves_none_witness:
  "determine_resolution_status_llm failing_collaborator [asked] = None \<and>
   determine_resolution_status_llm (failing_collaborator\<lparr> api_key := False \<rparr>) [asked] = None \<and>
   determine_resolution_status_llm failing_collaborator [] = Some ''waiting_for_company'' \<and>
   map resolution_status (fst (tag_conversations failing_collaborator [fresh_conversation] [])) =
     [Some None] \<and>
   map resolved (fst (tag_conversations failing_collaborator [fresh_conversation] [])) =
     [Some False] \<and>
   fst (process_conversations (\<lambda>i. ts_2213)
          (fst (tag_conversations failing_collaborator [fresh_conversation] []))) = []"
proof -
  let ?out = "fst (tag_conversations failing_collaborator [fresh_conversation] [])"
  have res: "resolution_call failing_collaborator (resolution_context [asked]) =
               Inl (Exception ''503 unavailable'')"
    by (simp add: failing_collaborator_def)
  note gap = resolution_failure_leaves_none
               [of failing_collaborator "[asked]" "Exception ''503 unavailable''"
                   "[fresh_conversation]" "[]"]
  have a: "determine_resolution_status_llm failing_collaborator [] = Some ''waiting_for_company''"
    using gap by blast
  have b: "determine_resolution_status_llm (failing_collaborator\<lparr> api_key := k \<rparr>) [asked] = None"
    for k using gap res by blast
  have out: "?out = [(add_patterns
                        (calculate_customer_patterns
                           [tag_conversation failing_collaborator fresh_conversation])
                        (tag_conversation failing_collaborator fresh_conversation))
                      \<lparr> processed := False \<rparr>]"
    by (simp add: tag_conversations_returned fresh_conversation_def)
  obtain c' where c': "?out = [c']" "chat_history c' = [asked]" "\<not> processed c'"
    using out by (simp add: add_patterns_keeps tag_conversation_keeps fresh_conversation_def)
  have "c' \<in> set ?out" using c' by simp
  with gap c' res have tags: "resolution_status c' = Some None" "resolved c' = Some False"
    "f_resolution_status (extract_features c') \<noteq> Some ''waiting_for_company''"
    by auto
  have "fst (process_conversations (\<lambda>i. ts_2213) ?out) = []"
    using c' tags by (simp add: process_conversations_def Let_def)
  moreover have "determine_resolution_status_llm failing_collaborator [asked] = None"
    using b[of True] by (simp add: failing_collaborator_def)
  ultimately show ?thesis using a b[of False] c' tags by simp
qed

subsection \<open>The tagged store\<close>

text \<open>
  What \<^verbatim>\<open>tag_conversations\<close> writes to the tagged store is merged key by key: it never holds
  two records of one root, whatever the raw store holds.
\<close>

lemma upsert_fold_keyed:
  "distinct (map fst d) \<Longrightarrow> \<forall>(k, v) \<in> set d. primary_tweet_id v = k \<Longrightarrow>
     distinct (map fst (foldl (\<lambda>d c. dict_set (primary_tweet_id c) c d) d cs)) \<and>
     (\<forall>(k, v) \<in> set (foldl (\<lambda>d c. dict_set (primary_tweet_id c) c d) d cs).
        primary_tweet_id v = k)"
proof (induction cs arbitrary: d)
  case Nil
  then show ?case by simp
next
  case (Cons c cs)
  have "distinct (map fst (dict_set (primary_tweet_id c) c d))"
    using Cons.prems(1) by (rule dict_set_distinct)
  moreover have "\<forall>(k, v) \<in> set (dict_set (primary_tweet_id c) c d). primary_tweet_id v = k"
    using Cons.prems(2) dict_set_pairs[of "primary_tweet_id c" c d] by auto
  ultimately show ?case using Cons.IH by simp
qed

lemma tagged_store_roots_distinct:
  "distinct (map primary_tweet_id (snd (snd (tag_conversations llm raw [])))) \<and>
   (distinct (map primary_tweet_id tagged) \<longrightarrow>
      distinct (map primary_tweet_id (snd (snd (tag_conversations llm raw tagged)))))"
proof -
  have up: "distinct (map primary_tweet_id (upsert_all existing unprocessed))"
    for existing unprocessed
  proof -
    let ?F = "\<lambda>d c. dict_set (primary_tweet_id c) c d"
    have "distinct (map fst (foldl ?F [] existing)) \<and>
          (\<forall>(k, v) \<in> set (foldl ?F [] existing). primary_tweet_id v = k)"
      by (rule upsert_fold_keyed) simp_all
    then have k: "distinct (map fst (foldl ?F (foldl ?F [] existing) unprocessed)) \<and>
                  (\<forall>(k, v) \<in> set (foldl ?F (foldl ?F [] existing) unprocessed).
                     primary_tweet_id v = k)"
      by (intro upsert_fold_keyed) simp_all
    have "map primary_tweet_id (dict_values d) = map fst d"
      if "\<forall>(k, v) \<in> set d. primary_tweet_id v = k" for d :: "conversation dict"
      using that by (induction d) (auto simp: dict_values_def)
    with k show ?thesis by (simp add: upsert_all_def)
  qed
  show ?thesis
    using up by (simp add: tag_conversations_def Let_def)
qed

section \<open>Properties of the recommendation stage\<close>

lemma recommend_all_customers:
  "map rec_customer_id (recommend_all clock i fs) = map f_customer_id fs"
  by (induction fs arbitrary: i) (simp_all add: determine_next_best_action_llm_def)

lemma recommend_all_default:
  "r \<in> set (recommend_all clock i fs) \<Longrightarrow>
     channel r = ''twitter_dm_reply'' \<and>
     rec_message r = ''Thank you for reaching out. We\039re here to help resolve your issue.'' \<and>
     reasoning r = ''Default recommendation - LLM not available'' \<and>
     issue_status r = ''pending_customer_reply''"
  by (induction fs arbitrary: i) (auto simp: determine_next_best_action_llm_def)

lemma waiting_feature:
  "f_resolution_status (extract_features c) = Some ''waiting_for_company'' \<longleftrightarrow>
     resolution_status c = None \<or> resolution_status c = Some (Some ''waiting_for_company'')"
  by (cases "resolution_status c") (simp_all add: extract_features_def)

text \<open>
  Claim C8. The conversations that \<^verbatim>\<open>process_conversations\<close> serves are the unprocessed ones
  whose \<open>resolution_status\<close> is \<^verbatim>\<open>waiting_for_company\<close> (or whose key is absent, which
  \<^verbatim>\<open>extract_features\<close> reads as that label). The list of recommendations has one record for
  each of them, in the order of the store, carrying its customer id, and every record is
  the fixed default: channel \<^verbatim>\<open>twitter_dm_reply\<close>, the acknowledgment message and issue
  status \<^verbatim>\<open>pending_customer_reply\<close>. The function never asks the collaborator, so this is
  also what it returns when the collaborator is down.
\<close>

theorem every_waiting_conversation_gets_the_default:
  "map rec_customer_id (fst (process_conversations clock stored)) =
     map (\<lambda>c. or_empty (customer_id c))
       (filter (\<lambda>c. \<not> processed c \<and>
                     (resolution_status c = None \<or>
                      resolution_status c = Some (Some ''waiting_for_company''))) stored) \<and>
   (\<forall>r \<in> set (fst (process_conversations clock stored)).
      channel r = ''twitter_dm_reply'' \<and>
      rec_message r = ''Thank you for reaching out. We\039re here to help resolve your issue.'' \<and>
      issue_status r = ''pending_customer_reply'')"
proof
  have "filter (\<lambda>fs. f_resolution_status fs = Some ''waiting_for_company'')
          (map extract_features (filter (\<lambda>c. \<not> processed c) stored)) =
        map extract_features
          (filter (\<lambda>c. \<not> processed c \<and>
                        (resolution_status c = None \<or>
                         resolution_status c = Some (Some ''waiting_for_company''))) stored)"
    by (simp add: filter_map comp_def waiting_feature conj_commute)
  then show "map rec_customer_id (fst (process_conversations clock stored)) =
     map (\<lambda>c. or_empty (customer_id c))
       (filter (\<lambda>c. \<not> processed c \<and>
                     (resolution_status c = None \<or>
                      resolution_status c = Some (Some ''waiting_for_company''))) stored)"
    by (simp add: process_conversations_def Let_def recommend_all_customers comp_def
          extract_features_def)
next
  show "\<forall>r \<in> set (fst (process_conversations clock stored)).
      channel r = ''twitter_dm_reply'' \<and>
      rec_message r = ''Thank you for reaching out. We\039re here to help resolve your issue.'' \<and>
      issue_status r = ''pending_customer_reply''"
    using recommend_all_default by (auto simp: process_conversations_def Let_def)
qed

theorem every_waiting_conversation_gets_the_default_witness:
  "map rec_customer_id (fst (process_conversations (\<lambda>i. ts_2213) [waiting_conversation])) =
     [''115712''] \<and>
   map channel (fst (process_conversations (\<lambda>i. ts_2213) [waiting_conversation])) =
     [''twitter_dm_reply''] \<and>
   map issue_status (fst (process_conversations (\<lambda>i. ts_2213) [waiting_conversation])) =
     [''pending_customer_reply'']"
proof -
  let ?recs = "fst (process_conversations (\<lambda>i. ts_2213) [waiting_conversation])"
  note inst = every_waiting_conversation_gets_the_default
               [of "\<lambda>i. ts_2213" "[waiting_conversation]"]
  from inst have ids: "map rec_customer_id ?recs = [''115712'']"
    by (simp add: waiting_conversation_def fresh_conversation_def or_empty_def)
  then obtain r where r: "?recs = [r]"
    by auto
  with inst have "channel r = ''twitter_dm_reply''" "issue_status r = ''pending_customer_reply''"
    by simp_all
  with ids r show ?thesis by simp
qed

end
